theory Spec2Isabelle
  imports Main "HOL-Library.Char_ord" "HOL-Library.List_Lexorder" "HOL-Library.AList"
    "HOL-Library.Multiset"
begin

section \<open>Labels, tables and nested dictionaries\<close>

text \<open>
  Index and column labels of the tables of \<^verbatim>\<open>scripts/process_template.py\<close> are strings
  (country, scenario, technology, indicator, material) or integers (years). Labels are
  ordered the way the grouping and pivoting operations sort them: integers by value,
  strings by code point; a level never mixes the two kinds.
\<close>

datatype label = LInt int | LStr string

instantiation label :: linorder
begin

fun less_eq_label :: "label \<Rightarrow> label \<Rightarrow> bool" where
  "less_eq_label (LInt a) (LInt b) = (a \<le> b)"
| "less_eq_label (LInt a) (LStr t) = True"
| "less_eq_label (LStr s) (LInt b) = False"
| "less_eq_label (LStr s) (LStr t) = (s \<le> t)"

definition less_label :: "label \<Rightarrow> label \<Rightarrow> bool" where
  "less_label a b = (a \<le> b \<and> \<not> b \<le> a)"

instance
proof
  fix x y z :: label
  show "(x < y) = (x \<le> y \<and> \<not> y \<le> x)"
    by (simp add: less_label_def)
  show "x \<le> x"
    by (cases x) simp_all
  show "x \<le> y \<Longrightarrow> y \<le> z \<Longrightarrow> x \<le> z"
    by (cases x; cases y; cases z) auto
  show "x \<le> y \<Longrightarrow> y \<le> x \<Longrightarrow> x = y"
    by (cases x; cases y) auto
  show "x \<le> y \<or> y \<le> x"
    by (cases x; cases y) auto
qed

end

text \<open>
  A table (pandas \<^verbatim>\<open>DataFrame\<close>) with numeric cells: the names of its row-index
  levels, its column labels, and its rows in order, each row a key (one label per index
  level) and one cell per column. Cells are exact numbers; floating-point rounding is
  outside the model. The index is a \<^verbatim>\<open>MultiIndex\<close> exactly when it has more than one
  level: every table that reaches \<^verbatim>\<open>df_to_dict\<close> is built by grouping or pivoting over
  at least two keys, and \<^verbatim>\<open>droplevel\<close> returns a flat index once one level is left.
\<close>

record frame =
  names :: "string option list"
  columns :: "label list"
  rows :: "(label list \<times> int list) list"

datatype error = KeyError | ValueError

text \<open>
  The result of \<^verbatim>\<open>df_to_dict\<close>: Python dictionaries as association lists in insertion
  order. A leaf maps a row label to the dictionary from column label to cell.
\<close>

datatype ndict =
  Leaf "(label \<times> (label \<times> int) list) list"
| Node "(label \<times> ndict) list"

definition nlevels :: "frame \<Rightarrow> nat" where
  "nlevels df = length (names df)"

definition is_multiindex :: "frame \<Rightarrow> bool" where
  "is_multiindex df = (1 < nlevels df)"

section \<open>The serializer \<^verbatim>\<open>df_to_dict\<close>\<close>

text \<open>\<^verbatim>\<open>(df != 0).any(1)\<close>: one flag per row, true when the row has a non-zero cell.\<close>

definition row_any :: "int list \<Rightarrow> bool" where
  "row_any cs = (\<exists>c \<in> set cs. c \<noteq> 0)"

text \<open>
  \<^verbatim>\<open>(df != 0).any(axis=0)\<close>: one flag per column, true when some row has a non-zero cell
  there; a table without rows gives false for each of its \<open>n\<close> columns.
\<close>

fun col_any :: "nat \<Rightarrow> int list list \<Rightarrow> bool list" where
  "col_any n [] = replicate n False"
| "col_any n (cs # rs) = map2 (\<or>) (map (\<lambda>c. c \<noteq> 0) cs) (col_any n rs)"

text \<open>Boolean-mask selection, as \<^verbatim>\<open>df.loc[mask]\<close> and \<^verbatim>\<open>df.loc[:, mask]\<close> do.\<close>

definition select_mask :: "bool list \<Rightarrow> 'a list \<Rightarrow> 'a list" where
  "select_mask m xs = map snd (filter fst (zip m xs))"

text \<open>\<^verbatim>\<open>df = df.loc[(df!=0).any(1)]\<close>\<close>

definition drop_zero_rows :: "frame \<Rightarrow> frame" where
  "drop_zero_rows df = df\<lparr>rows := filter (\<lambda>(k, cs). row_any cs) (rows df)\<rparr>"

text \<open>\<^verbatim>\<open>df = df.loc[:, (df != 0).any(axis=0)]\<close>\<close>

definition drop_zero_cols :: "frame \<Rightarrow> frame" where
  "drop_zero_cols df =
     (let m = col_any (length (columns df)) (map snd (rows df))
      in df\<lparr>columns := select_mask m (columns df),
             rows := map (\<lambda>(k, cs). (k, select_mask m cs)) (rows df)\<rparr>)"

text \<open>The leaf-level zero filter: rows first, then columns of what is left.\<close>

definition zero_filter :: "frame \<Rightarrow> frame" where
  "zero_filter df = drop_zero_cols (drop_zero_rows df)"

text \<open>
  A Python \<^verbatim>\<open>dict\<close> built from key/value pairs in order: a repeated key keeps its first
  position and takes the last value.
\<close>

definition py_dict :: "('k \<times> 'v) list \<Rightarrow> ('k \<times> 'v) list" where
  "py_dict kvs = fold (\<lambda>(k, v) d. AList.update k v d) kvs []"

text \<open>
  \<^verbatim>\<open>df.to_dict('index')\<close> on a table with a flat index: it raises \<^verbatim>\<open>ValueError\<close> when the
  index has a repeated label, and otherwise maps each row label to
  \<^verbatim>\<open>dict(zip(columns, row))\<close>.
\<close>

definition to_dict_index :: "frame \<Rightarrow> error + ndict" where
  "to_dict_index df =
     (if distinct (map fst (rows df))
      then Inr (Leaf (map (\<lambda>(k, cs). (hd k, py_dict (zip (columns df) cs))) (rows df)))
      else Inl ValueError)"

text \<open>
  \<^verbatim>\<open>df.groupby(level=0)\<close> iterates over the distinct labels of the outermost level in
  sorted order; each group keeps the rows that carry the label, in table order.
\<close>

definition group_keys :: "frame \<Rightarrow> label list" where
  "group_keys df = sort (remdups (map (\<lambda>(k, cs). hd k) (rows df)))"

definition get_group :: "frame \<Rightarrow> label \<Rightarrow> frame" where
  "get_group df name = df\<lparr>rows := filter (\<lambda>(k, cs). hd k = name) (rows df)\<rparr>"

text \<open>\<^verbatim>\<open>g.droplevel(0)\<close>\<close>

definition droplevel0 :: "frame \<Rightarrow> frame" where
  "droplevel0 df = df\<lparr>names := tl (names df), rows := map (\<lambda>(k, cs). (tl k, cs)) (rows df)\<rparr>"

text \<open>
  A dictionary comprehension whose values may raise: the first exception aborts the
  comprehension.
\<close>

fun collect :: "('a \<times> (error + 'b)) list \<Rightarrow> error + ('a \<times> 'b) list" where
  "collect [] = Inr []"
| "collect ((k, Inl e) # xs) = Inl e"
| "collect ((k, Inr v) # xs) =
     (case collect xs of Inl e \<Rightarrow> Inl e | Inr ys \<Rightarrow> Inr ((k, v) # ys))"

text \<open>
  \<^verbatim>\<open>df_to_dict(df, drop_full_zeros=True)\<close>. The recursive call passes no second
  argument, so every group is serialized with the default \<^verbatim>\<open>True\<close>.
\<close>

function df_to_dict :: "frame \<Rightarrow> bool \<Rightarrow> error + ndict" where
  "df_to_dict df drop_full_zeros =
     (if is_multiindex df
      then map_sum id Node
             (collect (map (\<lambda>name. (name, df_to_dict (droplevel0 (get_group df name)) True))
                           (group_keys df)))
      else to_dict_index (if drop_full_zeros then zero_filter df else df))"
  by pat_completeness auto
termination
  by (relation "measure (\<lambda>(df, z). nlevels df)")
     (auto simp: nlevels_def is_multiindex_def droplevel0_def get_group_def)


section \<open>Table operations used by \<^verbatim>\<open>load_dfs\<close>\<close>

definition bind_err :: "error + 'a \<Rightarrow> ('a \<Rightarrow> error + 'b) \<Rightarrow> error + 'b" where
  "bind_err x f = (case x of Inl e \<Rightarrow> Inl e | Inr v \<Rightarrow> f v)"

text \<open>
  A series with a multi-level index (the result of \<^verbatim>\<open>stack\<close>): the level names and the
  entries in order.
\<close>

record series =
  s_names :: "string option list"
  s_entries :: "(label list \<times> int) list"

text \<open>
  \<^verbatim>\<open>groupby(keys)\<close>: the distinct keys in sorted order, each with its records in input
  order.
\<close>

definition groupby :: "('r \<Rightarrow> label list) \<Rightarrow> 'r list \<Rightarrow> (label list \<times> 'r list) list" where
  "groupby key rs = map (\<lambda>k. (k, filter (\<lambda>r. key r = k) rs)) (sort (remdups (map key rs)))"

text \<open>Column-wise \<^verbatim>\<open>sum()\<close> of the rows of a group, over \<open>n\<close> columns.\<close>

definition sum_cols :: "nat \<Rightarrow> int list list \<Rightarrow> int list" where
  "sum_cols n css = foldr (map2 (+)) css (replicate n 0)"

text \<open>Position of a named index level; a name that is no level is a \<^verbatim>\<open>KeyError\<close>.\<close>

fun level_pos :: "string \<Rightarrow> string option list \<Rightarrow> error + nat" where
  "level_pos nm [] = Inl KeyError"
| "level_pos nm (x # xs) =
     (if x = Some nm then Inr 0 else map_sum id Suc (level_pos nm xs))"

fun level_positions :: "string list \<Rightarrow> string option list \<Rightarrow> error + nat list" where
  "level_positions [] ns = Inr []"
| "level_positions (nm # nms) ns =
     bind_err (level_pos nm ns) (\<lambda>p.
     bind_err (level_positions nms ns) (\<lambda>ps. Inr (p # ps)))"

text \<open>
  \<^verbatim>\<open>.loc[labels]\<close> on a multi-level index: for each requested label, in the order
  requested, the rows whose outermost level carries it; a requested label that no row
  carries is a \<^verbatim>\<open>KeyError\<close>.
\<close>

definition loc_rows :: "label list \<Rightarrow> (label list \<times> 'c) list \<Rightarrow> error + (label list \<times> 'c) list" where
  "loc_rows ls rs =
     (if \<forall>l \<in> set ls. l \<in> set (map (\<lambda>(k, c). hd k) rs)
      then Inr (concat (map (\<lambda>l. filter (\<lambda>(k, c). hd k = l) rs) ls))
      else Inl KeyError)"

definition loc :: "label list \<Rightarrow> frame \<Rightarrow> error + frame" where
  "loc ls df = map_sum id (\<lambda>rs. df\<lparr>rows := rs\<rparr>) (loc_rows ls (rows df))"

text \<open>
  \<^verbatim>\<open>df.stack()\<close>: the column labels become a new innermost, unnamed index level. Cells
  are never missing here, so nothing is dropped.
\<close>

definition stack :: "frame \<Rightarrow> series" where
  "stack df =
     \<lparr>s_names = names df @ [None],
      s_entries = concat (map (\<lambda>(k, cs). map (\<lambda>(c, v). (k @ [c], v)) (zip (columns df) cs))
                              (rows df))\<rparr>"

definition drop_at :: "nat \<Rightarrow> 'a list \<Rightarrow> 'a list" where
  "drop_at p k = take p k @ drop (Suc p) k"

definition insert_at :: "nat \<Rightarrow> 'a \<Rightarrow> 'a list \<Rightarrow> 'a list" where
  "insert_at p x k = take p k @ x # drop p k"

text \<open>
  \<^verbatim>\<open>s.unstack(level=nm, fill_value=0)\<close>: the labels of the named level become the
  columns (sorted), the other levels the row index (sorted); a combination without an
  entry is filled with 0. A repeated index entry is a \<^verbatim>\<open>ValueError\<close>.
\<close>

definition unstack :: "string \<Rightarrow> series \<Rightarrow> error + frame" where
  "unstack nm s =
     bind_err (level_pos nm (s_names s)) (\<lambda>p.
       if \<not> distinct (map fst (s_entries s)) then Inl ValueError
       else
         let cols = sort (remdups (map (\<lambda>(k, v). k ! p) (s_entries s)));
             idx = sort (remdups (map (\<lambda>(k, v). drop_at p k) (s_entries s)))
         in Inr \<lparr>names = drop_at p (s_names s),
                 columns = cols,
                 rows = map (\<lambda>i. (i, map (\<lambda>c. case map_of (s_entries s) (insert_at p c i) of
                                                  None \<Rightarrow> 0 | Some v \<Rightarrow> v) cols)) idx\<rparr>)"

text \<open>\<^verbatim>\<open>df.index.set_names(nm, -1, True)\<close>: name the innermost level, in place.\<close>

definition set_names_last :: "string \<Rightarrow> frame \<Rightarrow> frame" where
  "set_names_last nm df = df\<lparr>names := butlast (names df) @ [Some nm]\<rparr>"

text \<open>\<^verbatim>\<open>df.groupby(level_names).sum()\<close> on a table, grouping by index levels.\<close>

definition frame_groupby_sum :: "string list \<Rightarrow> frame \<Rightarrow> error + frame" where
  "frame_groupby_sum nms df =
     bind_err (level_positions nms (names df)) (\<lambda>ps.
       Inr \<lparr>names = map Some nms,
            columns = columns df,
            rows = map (\<lambda>(k, g). (k, sum_cols (length (columns df)) (map snd g)))
                       (groupby (\<lambda>(k, cs). map ((!) k) ps) (rows df))\<rparr>)"

text \<open>\<^verbatim>\<open>s.groupby(level_names).sum()\<close> on a series.\<close>

definition series_groupby_sum :: "string list \<Rightarrow> series \<Rightarrow> error + series" where
  "series_groupby_sum nms s =
     bind_err (level_positions nms (s_names s)) (\<lambda>ps.
       Inr \<lparr>s_names = map Some nms,
            s_entries = map (\<lambda>(k, g). (k, sum_list (map snd g)))
                            (groupby (\<lambda>(k, v). map ((!) k) ps) (s_entries s))\<rparr>)"

text \<open>
  \<^verbatim>\<open>df.rename(index=d, inplace=True)\<close>: every label of every row-index level that is a
  key of \<open>d\<close> is replaced by its value; column labels and cells are untouched.
\<close>

definition rename_label :: "(string \<times> string) list \<Rightarrow> label \<Rightarrow> label" where
  "rename_label d l =
     (case l of
        LInt i \<Rightarrow> l
      | LStr s \<Rightarrow> (case map_of d s of None \<Rightarrow> l | Some t \<Rightarrow> LStr t))"

definition rename_index :: "(string \<times> string) list \<Rightarrow> frame \<Rightarrow> frame" where
  "rename_index d df = df\<lparr>rows := map (\<lambda>(k, cs). (map (rename_label d) k, cs)) (rows df)\<rparr>"

section \<open>The loader \<^verbatim>\<open>load_dfs\<close>\<close>

text \<open>
  The emissions file \<^verbatim>\<open>E_matbytech_bycountry.csv\<close> as \<^verbatim>\<open>read_csv(..., index_col=0)\<close>
  returns it: the key columns \<^verbatim>\<open>Country\<close>, \<^verbatim>\<open>Scenario\<close>, \<^verbatim>\<open>Year\<close>, \<^verbatim>\<open>tech\<close> and one
  numeric column per material, whose cells may be empty (\<open>None\<close>). The header names of
  the material columns are kept apart from the records.
\<close>

record erow =
  e_country :: string
  e_scenario :: string
  e_year :: int
  e_tech :: string
  e_mats :: "int option list"

record emissions_csv =
  e_materials :: "string list"
  e_rows :: "erow list"

text \<open>
  The jobs file \<^verbatim>\<open>jobs_forplot.csv\<close> after \<^verbatim>\<open>drop(columns=['Country', 'ISO3'])\<close> and the
  renaming of \<^verbatim>\<open>tech\<close>, \<^verbatim>\<open>scenario\<close>, \<^verbatim>\<open>country\<close>: the key columns, \<^verbatim>\<open>parameter\<close>,
  \<^verbatim>\<open>Indicator\<close> and the one value column, whose cell may be empty.
\<close>

record jrow =
  j_country :: string
  j_scenario :: string
  j_year :: int
  j_tech :: string
  j_indicator :: string
  j_parameter :: string
  j_value :: "int option"

definition rename_dict :: "(string \<times> string) list" where
  "rename_dict =
     [(''KE'', ''Kenya''), (''RW'', ''Rwanda''), (''UG'', ''Uganda''),
      (''UK'', ''United Kingdom''), (''ZM'', ''Zambia'')]"

definition countries :: "label list" where
  "countries = map (\<lambda>(k, v). LStr k) rename_dict"

definition countries_alt :: "label list" where
  "countries_alt = filter (\<lambda>n. n \<noteq> LStr ''UK'') countries"

text \<open>\<^verbatim>\<open>fillna(0)\<close> on the cells of a record.\<close>

definition fillna0 :: "int option list \<Rightarrow> int list" where
  "fillna0 cs = map (\<lambda>c. case c of None \<Rightarrow> 0 | Some v \<Rightarrow> v) cs"

text \<open>\<^verbatim>\<open>first()\<close> of a value column within a group: the first cell that is not empty.\<close>

definition first_valid :: "'a option list \<Rightarrow> 'a option" where
  "first_valid vs = (case filter (\<lambda>v. v \<noteq> None) vs of [] \<Rightarrow> None | v # _ \<Rightarrow> v)"

text \<open>
  Emissions by year (lines 27 to 30): group by (Country, Scenario, Year) and sum the
  material columns (the text column \<^verbatim>\<open>tech\<close> is not summed), keep the configured
  countries, then pivot the years into columns.
\<close>

definition emissions_year :: "emissions_csv \<Rightarrow> error + frame" where
  "emissions_year csv =
     (let n = length (e_materials csv);
          df = \<lparr>names = [Some ''Country'', Some ''Scenario'', Some ''Year''],
                columns = map LStr (e_materials csv),
                rows = map (\<lambda>(k, g). (k, sum_cols n (map (\<lambda>r. fillna0 (e_mats r)) g)))
                         (groupby (\<lambda>r. [LStr (e_country r), LStr (e_scenario r), LInt (e_year r)])
                                  (e_rows csv))\<rparr>
      in bind_err (loc countries df) (\<lambda>df.
         bind_err (unstack ''Year'' (stack df)) (\<lambda>df.
         Inr (set_names_last ''Mat'' df))))"

text \<open>
  Lines 33 and 34: group by (Country, Scenario, Year, Tech), take the first record of
  each group, keep the configured countries.
\<close>

definition emissions_first :: "emissions_csv \<Rightarrow> error + frame" where
  "emissions_first csv =
     (let df = \<lparr>names = [Some ''Country'', Some ''Scenario'', Some ''Year'', Some ''Tech''],
                columns = map LStr (e_materials csv),
                rows = map (\<lambda>(k, g). (k, case g of [] \<Rightarrow> [] | r # _ \<Rightarrow> fillna0 (e_mats r)))
                         (groupby (\<lambda>r. [LStr (e_country r), LStr (e_scenario r),
                                         LInt (e_year r), LStr (e_tech r)])
                                  (e_rows csv))\<rparr>
      in loc countries df)"

text \<open>Line 35\<close>

definition emissions_mat :: "frame \<Rightarrow> error + frame" where
  "emissions_mat df_et = frame_groupby_sum [''Country'', ''Scenario''] df_et"

text \<open>Lines 36 to 38\<close>

definition emissions_tech :: "frame \<Rightarrow> error + frame" where
  "emissions_tech df_et =
     bind_err (frame_groupby_sum [''Country'', ''Scenario'', ''Tech''] df_et) (\<lambda>df.
     bind_err (unstack ''Tech'' (stack df)) (\<lambda>df.
     Inr (set_names_last ''Mat'' df)))"

text \<open>
  Lines 48 and 50: keep the records of the one parameter, then drop the records whose
  indicator is \<^verbatim>\<open>Capacity\<close>.
\<close>

definition jobs_filter :: "jrow list \<Rightarrow> jrow list" where
  "jobs_filter js =
     filter (\<lambda>r. j_indicator r \<noteq> ''Capacity'')
       (filter (\<lambda>r. j_parameter r = ''Power Generation Capacity (Aggregate)'') js)"

text \<open>
  Lines 52 and 54: group by the five keys and take the first value of each group, keep
  the four configured countries other than UK, then turn the one remaining column into a
  series (\<^verbatim>\<open>stack\<close> drops the empty cells, \<^verbatim>\<open>droplevel(-1)\<close> removes the column level).
\<close>

definition jobs_series :: "jrow list \<Rightarrow> error + series" where
  "jobs_series js =
     (let grouped = map (\<lambda>(k, g). (k, first_valid (map j_value g)))
                      (groupby (\<lambda>r. [LStr (j_country r), LStr (j_scenario r), LInt (j_year r),
                                      LStr (j_tech r), LStr (j_indicator r)])
                               (jobs_filter js))
      in bind_err (loc_rows countries_alt grouped) (\<lambda>rs.
         Inr \<lparr>s_names = [Some ''Country'', Some ''Scenario'', Some ''Year'', Some ''Tech'',
                         Some ''Indicator''],
              s_entries = List.map_filter (\<lambda>(k, v). map_option (Pair k) v) rs\<rparr>))"

text \<open>Lines 55 to 59: the four pivots of the jobs series.\<close>

definition jobs_year_full :: "series \<Rightarrow> error + frame" where
  "jobs_year_full df_j = unstack ''Year'' df_j"

definition jobs_year :: "series \<Rightarrow> error + frame" where
  "jobs_year df_j =
     bind_err (series_groupby_sum [''Country'', ''Scenario'', ''Year'', ''Tech''] df_j)
       (unstack ''Year'')"

definition jobs_tech :: "series \<Rightarrow> error + frame" where
  "jobs_tech df_j =
     bind_err (series_groupby_sum [''Country'', ''Scenario'', ''Indicator'', ''Tech''] df_j)
       (unstack ''Tech'')"

definition jobs_ind :: "series \<Rightarrow> error + frame" where
  "jobs_ind df_j =
     bind_err (series_groupby_sum [''Country'', ''Scenario'', ''Indicator''] df_j)
       (unstack ''Indicator'')"

text \<open>The dictionary \<^verbatim>\<open>res\<close> of lines 62 to 70, before the renaming loop.\<close>

definition load_tables :: "emissions_csv \<Rightarrow> jrow list \<Rightarrow> error + (string \<times> frame) list" where
  "load_tables csv js =
     bind_err (emissions_year csv) (\<lambda>df_ey.
     bind_err (emissions_first csv) (\<lambda>df_et0.
     bind_err (emissions_mat df_et0) (\<lambda>df_em.
     bind_err (emissions_tech df_et0) (\<lambda>df_et.
     bind_err (jobs_series js) (\<lambda>df_j.
     bind_err (jobs_year_full df_j) (\<lambda>df_jyf.
     bind_err (jobs_year df_j) (\<lambda>df_jy.
     bind_err (jobs_tech df_j) (\<lambda>df_jt.
     bind_err (jobs_ind df_j) (\<lambda>df_ji.
     Inr [(''emissions_year'', df_ey),
          (''emissions_tech'', df_et),
          (''emissions_mat'', df_em),
          (''jobs_year'', df_jy),
          (''jobs_year_full'', df_jyf),
          (''jobs_tech'', df_jt),
          (''jobs_ind'', df_ji)])))))))))"

text \<open>\<^verbatim>\<open>load_dfs\<close>: the tables, each with its row index renamed (lines 72 and 73).\<close>

definition load_dfs :: "emissions_csv \<Rightarrow> jrow list \<Rightarrow> error + (string \<times> frame) list" where
  "load_dfs csv js =
     map_sum id (map (\<lambda>(name, df). (name, rename_index rename_dict df))) (load_tables csv js)"

text \<open>
  The template variables of \<^verbatim>\<open>main\<close> (lines 108 and 116):
  \<^verbatim>\<open>{name: df_to_dict(df, not preserve_zeros) for name, df in dfs.items()}\<close>.
\<close>

definition template_vars ::
  "emissions_csv \<Rightarrow> jrow list \<Rightarrow> bool \<Rightarrow> error + (string \<times> ndict) list" where
  "template_vars csv js preserve_zeros =
     bind_err (load_dfs csv js) (\<lambda>dfs.
       collect (map (\<lambda>(name, df). (name, df_to_dict df (\<not> preserve_zeros))) dfs))"


section \<open>Well-formed tables\<close>

text \<open>Every row of a table has one cell per column.\<close>

definition rectangular :: "frame \<Rightarrow> bool" where
  "rectangular df = (\<forall>(k, cs) \<in> set (rows df). length cs = length (columns df))"

text \<open>The column flags of a table, \<^verbatim>\<open>(df != 0).any(axis=0)\<close>.\<close>

definition col_mask :: "frame \<Rightarrow> bool list" where
  "col_mask df = col_any (length (columns df)) (map snd (rows df))"

text \<open>A well-formed table: at least one index level, every key with one label per level, every row with one cell per column, no repeated key and no repeated column label. The tables built by grouping and pivoting are of this kind.\<close>

definition wf_frame :: "frame \<Rightarrow> bool" where
  "wf_frame df =
     (0 < nlevels df \<and>
      (\<forall>(k, cs) \<in> set (rows df). length k = nlevels df \<and> length cs = length (columns df)) \<and>
      distinct (map fst (rows df)) \<and> distinct (columns df))"

text \<open>The cell of a table at a row key and a column label.\<close>

definition frame_lookup :: "frame \<Rightarrow> label list \<Rightarrow> label \<Rightarrow> int option" where
  "frame_lookup df path c =
     (case map_of (rows df) path of None \<Rightarrow> None | Some cs \<Rightarrow> map_of (zip (columns df) cs) c)"

text \<open>The row at a key is absent or has only zero cells.\<close>

definition row_is_zero :: "frame \<Rightarrow> label list \<Rightarrow> bool" where
  "row_is_zero df path = (case map_of (rows df) path of None \<Rightarrow> True | Some cs \<Rightarrow> \<not> row_any cs)"

text \<open>The column is zero in every row that shares all but the innermost label with the key: the rows of one leaf table.\<close>

definition col_is_zero :: "frame \<Rightarrow> label list \<Rightarrow> label \<Rightarrow> bool" where
  "col_is_zero df path c =
     (\<forall>(k, cs) \<in> set (rows df). butlast k = butlast path \<longrightarrow>
        (case map_of (zip (columns df) cs) c of None \<Rightarrow> True | Some v \<Rightarrow> v = 0))"

text \<open>Reading a leaf dictionary at a row label and a column label.\<close>

definition leaf_lookup :: "(label \<times> (label \<times> int) list) list \<Rightarrow> label \<Rightarrow> label \<Rightarrow> int option" where
  "leaf_lookup m r c = (case map_of m r of None \<Rightarrow> None | Some row \<Rightarrow> map_of row c)"

text \<open>Reading a nested dictionary along a path of labels, one per level, and a column label.\<close>

fun nd_lookup :: "ndict \<Rightarrow> label list \<Rightarrow> label \<Rightarrow> int option" where
  "nd_lookup (Leaf m) path c = (case path of [r] \<Rightarrow> leaf_lookup m r c | _ \<Rightarrow> None)"
| "nd_lookup (Node kids) path c =
     (case path of
        [] \<Rightarrow> None
      | k # ks \<Rightarrow> (case map_of kids k of None \<Rightarrow> None | Some d \<Rightarrow> nd_lookup d ks c))"

text \<open>A nested dictionary with exactly \<open>n\<close> outer dictionary levels above its leaves.\<close>

fun nd_levels :: "nat \<Rightarrow> ndict \<Rightarrow> bool" where
  "nd_levels 0 d = (case d of Leaf m \<Rightarrow> True | Node kids \<Rightarrow> False)"
| "nd_levels (Suc n) d =
     (case d of Leaf m \<Rightarrow> False | Node kids \<Rightarrow> \<forall>(k, d') \<in> set kids. nd_levels n d')"

text \<open>The column labels of a row of a leaf dictionary.\<close>

definition leaf_cols :: "(label \<times> (label \<times> int) list) list \<Rightarrow> label \<Rightarrow> label list" where
  "leaf_cols m r = (case map_of m r of None \<Rightarrow> [] | Some row \<Rightarrow> map fst row)"

text \<open>All values of a row of a leaf dictionary are zero.\<close>

definition leaf_zero_row :: "(label \<times> (label \<times> int) list) list \<Rightarrow> label \<Rightarrow> bool" where
  "leaf_zero_row m r = (\<forall>c \<in> set (leaf_cols m r). leaf_lookup m r c = Some 0)"

text \<open>A column label carries zero in every row of a leaf dictionary that has it.\<close>

definition leaf_zero_col :: "(label \<times> (label \<times> int) list) list \<Rightarrow> label \<Rightarrow> bool" where
  "leaf_zero_col m c =
     (\<forall>r \<in> set (map fst m). case leaf_lookup m r c of None \<Rightarrow> True | Some v \<Rightarrow> v = 0)"

text \<open>The leaf \<open>b\<close> is a row- and column-wise superset of the leaf \<open>a\<close>: every row label of \<open>a\<close> is one of \<open>b\<close>, every cell of \<open>a\<close> is in \<open>b\<close> with the same value, and a cell of \<open>b\<close> missing from \<open>a\<close> lies in an all-zero row or an all-zero column of \<open>b\<close>.\<close>

definition leaf_super :: 
  "(label \<times> (label \<times> int) list) list \<Rightarrow> (label \<times> (label \<times> int) list) list \<Rightarrow> bool" where
  "leaf_super a b =
     (set (map fst a) \<subseteq> set (map fst b) \<and>
      (\<forall>r \<in> set (map fst a). \<forall>c \<in> set (leaf_cols a r). leaf_lookup b r c = leaf_lookup a r c) \<and>
      (\<forall>r \<in> set (map fst b). \<forall>c \<in> set (leaf_cols b r).
         leaf_lookup a r c = None \<longrightarrow> leaf_zero_row b r \<or> leaf_zero_col b c))"

text \<open>The same relation on nested dictionaries: equal outer keys, level by level, and related leaves.\<close>

fun nd_super :: "ndict \<Rightarrow> ndict \<Rightarrow> bool" where
  "nd_super (Leaf a) (Leaf b) = leaf_super a b"
| "nd_super (Node as) (Node bs) =
     list_all2 (\<lambda>x y. fst x = fst y \<and> nd_super (snd x) (snd y)) as bs"
| "nd_super (Leaf a) (Node bs) = False"
| "nd_super (Node as) (Leaf b) = False"

text \<open>The leaf dictionary of a well-formed flat table, without any filtering.\<close>

definition leaf_of :: "frame \<Rightarrow> (label \<times> (label \<times> int) list) list" where
  "leaf_of df = map (\<lambda>(k, cs). (hd k, zip (columns df) cs)) (rows df)"

text \<open>The column is zero in every row of the table.\<close>

definition col_zero_all :: "frame \<Rightarrow> label \<Rightarrow> bool" where
  "col_zero_all df c =
     (\<forall>(k, cs) \<in> set (rows df). case map_of (zip (columns df) cs) c of None \<Rightarrow> True | Some v \<Rightarrow> v = 0)"

text \<open>What \<^verbatim>\<open>df_to_dict\<close> returns, read cell by cell: the cell of the table, unless zero dropping applies (the index has several levels or the flag is set) and the cell lies in an all-zero row or an all-zero column of its leaf table.\<close>

definition lookup_spec :: "frame \<Rightarrow> bool \<Rightarrow> ndict \<Rightarrow> bool" where
  "lookup_spec df z d =
     (\<forall>path c. nd_lookup d path c =
        (if (is_multiindex df \<or> z) \<and> (row_is_zero df path \<or> col_is_zero df path c) then None
         else frame_lookup df path c))"

text \<open>A flat table used in the examples: one all-zero row, one all-zero column.\<close>

definition ex_leaf :: frame where
  "ex_leaf =
     \<lparr>names = [Some ''Mat''],
      columns = [LInt 2020, LInt 2021, LInt 2022],
      rows = [([LStr ''Steel''], [5, 0, 0]),
              ([LStr ''Wood''], [0, 0, 0]),
              ([LStr ''Zinc''], [1, 0, 2])]\<rparr>"

text \<open>A table with three index levels used in the examples; one of its rows is all zero.\<close>

definition ex_multi :: frame where
  "ex_multi =
     \<lparr>names = [Some ''Country'', Some ''Scenario'', Some ''Mat''],
      columns = [LInt 2020, LInt 2021],
      rows = [([LStr ''Kenya'', LStr ''Base'', LStr ''Steel''], [5, 0]),
              ([LStr ''Kenya'', LStr ''Base'', LStr ''Wood''], [0, 0]),
              ([LStr ''Rwanda'', LStr ''Base'', LStr ''Steel''], [1, 2])]\<rparr>"

section \<open>Reading the loader's result\<close>

text \<open>The cells of a table as a multiset, labels left out.\<close>

definition cell_values :: "frame \<Rightarrow> int multiset" where
  "cell_values df = mset (concat (map snd (rows df)))"

text \<open>Number of rows and number of columns of a table.\<close>

definition frame_shape :: "frame \<Rightarrow> nat \<times> nat" where
  "frame_shape df = (length (rows df), length (columns df))"

text \<open>Two named tables with the same name, the same cells row by row, the same columns and the same shape.\<close>

definition same_cells :: "(string \<times> frame) \<Rightarrow> (string \<times> frame) \<Rightarrow> bool" where
  "same_cells x y =
     (fst x = fst y \<and> cell_values (snd x) = cell_values (snd y) \<and>
      frame_shape (snd x) = frame_shape (snd y) \<and>
      map snd (rows (snd x)) = map snd (rows (snd y)) \<and> columns (snd x) = columns (snd y))"

text \<open>The row keys of the first named table are those of the second with every label renamed.\<close>

definition relabelled :: "(string \<times> frame) \<Rightarrow> (string \<times> frame) \<Rightarrow> bool" where
  "relabelled x y =
     (fst x = fst y \<and>
      map fst (rows (snd x)) = map (map (rename_label rename_dict)) (map fst (rows (snd y))))"

text \<open>The keys of the dictionary \<^verbatim>\<open>res\<close>, in order.\<close>

definition table_names :: "string list" where
  "table_names =
     [''emissions_year'', ''emissions_tech'', ''emissions_mat'', ''jobs_year'',
      ''jobs_year_full'', ''jobs_tech'', ''jobs_ind'']"

text \<open>One template variable of \<^verbatim>\<open>main\<close>, by name.\<close>

definition template_var ::
  "string \<Rightarrow> emissions_csv \<Rightarrow> jrow list \<Rightarrow> bool \<Rightarrow> error + ndict option" where
  "template_var name csv js preserve_zeros =
     map_sum id (\<lambda>vars. map_of vars name) (template_vars csv js preserve_zeros)"

text \<open>Example inputs: an emissions file with one material column and the five countries, and a jobs file with the four countries other than UK.\<close>

definition mk_erow :: "string \<Rightarrow> string \<Rightarrow> int \<Rightarrow> string \<Rightarrow> int option list \<Rightarrow> erow" where
  "mk_erow c s y t ms = \<lparr>e_country = c, e_scenario = s, e_year = y, e_tech = t, e_mats = ms\<rparr>"

definition mk_jrow ::
  "string \<Rightarrow> string \<Rightarrow> int \<Rightarrow> string \<Rightarrow> string \<Rightarrow> string \<Rightarrow> int option \<Rightarrow> jrow" where
  "mk_jrow c s y t i p v =
     \<lparr>j_country = c, j_scenario = s, j_year = y, j_tech = t, j_indicator = i,
      j_parameter = p, j_value = v\<rparr>"

definition ex_csv :: emissions_csv where
  "ex_csv =
     \<lparr>e_materials = [''Steel''],
      e_rows =
        [mk_erow ''KE'' ''Base'' 2020 ''Solar'' [Some 5],
         mk_erow ''KE'' ''Base'' 2021 ''Solar'' [Some 0],
         mk_erow ''RW'' ''Base'' 2020 ''Solar'' [Some 1],
         mk_erow ''UG'' ''Base'' 2020 ''Solar'' [Some 2],
         mk_erow ''UK'' ''Base'' 2020 ''Solar'' [Some 3],
         mk_erow ''ZM'' ''Base'' 2021 ''Wind'' [Some 4]]\<rparr>"

definition ex_jobs :: "jrow list" where
  "ex_jobs =
     [mk_jrow ''KE'' ''Base'' 2020 ''Solar'' ''Direct'' ''Power Generation Capacity (Aggregate)'' (Some 3),
      mk_jrow ''RW'' ''Base'' 2020 ''Solar'' ''Direct'' ''Power Generation Capacity (Aggregate)'' (Some 3),
      mk_jrow ''UG'' ''Base'' 2020 ''Solar'' ''Direct'' ''Power Generation Capacity (Aggregate)'' (Some 3),
      mk_jrow ''ZM'' ''Base'' 2021 ''Wind'' ''Indirect'' ''Power Generation Capacity (Aggregate)'' (Some 7)]"

definition capacity_row :: jrow where
  "capacity_row =
     mk_jrow ''KE'' ''Base'' 2020 ''Solar'' ''Capacity'' ''Power Generation Capacity (Aggregate)'' (Some 30)"

definition ex_csv_uk :: emissions_csv where
  "ex_csv_uk =
     \<lparr>e_materials = [''UK''],
      e_rows =
        [mk_erow ''KE'' ''Base'' 2020 ''Solar'' [Some 5],
         mk_erow ''RW'' ''Base'' 2020 ''Solar'' [Some 1],
         mk_erow ''UG'' ''Base'' 2020 ''Solar'' [Some 2],
         mk_erow ''UK'' ''Base'' 2020 ''Solar'' [Some 3],
         mk_erow ''ZM'' ''Base'' 2021 ''Wind'' [Some 4]]\<rparr>"

text \<open>The row keys of every table of a result.\<close>

definition index_keys :: "(string \<times> frame) list \<Rightarrow> (string \<times> label list list) list" where
  "index_keys res = map (\<lambda>(n, df). (n, map fst (rows df))) res"

section \<open>Properties of the zero filter\<close>

declare df_to_dict.simps [simp del]

lemma select_mask_Nil [simp]: "select_mask [] xs = []" "select_mask m [] = []"
  by (simp_all add: select_mask_def)

lemma select_mask_Cons [simp]:
  "select_mask (b # m) (x # xs) = (if b then x # select_mask m xs else select_mask m xs)"
  by (simp add: select_mask_def)

lemma select_mask_map: "select_mask m (map f xs) = map f (select_mask m xs)"
  by (induction m xs rule: list_induct2') auto

lemma select_mask_zip:
  "select_mask m (zip xs ys) = zip (select_mask m xs) (select_mask m ys)"
proof (induction m arbitrary: xs ys)
  case Nil
  then show ?case by simp
next
  case (Cons b m)
  then show ?case by (cases xs; cases ys) auto
qed

lemma select_mask_replicate:
  "length m = n \<Longrightarrow> select_mask m (replicate n x) = replicate (length (filter id m)) x"
  by (induction m arbitrary: n) auto

lemma select_mask_self: "select_mask m m = replicate (length (filter id m)) True"
  by (induction m) auto

lemma length_select_mask:
  "length xs = length m \<Longrightarrow> length (select_mask m xs) = length (filter id m)"
  by (induction m xs rule: list_induct2') auto

lemma select_mask_all_True: "length xs = n \<Longrightarrow> select_mask (replicate n True) xs = xs"
  by (induction xs arbitrary: n) auto

lemma length_col_any: "\<forall>cs \<in> set rs. length cs = n \<Longrightarrow> length (col_any n rs) = n"
  by (induction rs) auto

lemma col_any_select:
  "length m = n \<Longrightarrow> \<forall>cs \<in> set rs. length cs = n \<Longrightarrow>
   col_any (length (filter id m)) (map (select_mask m) rs) = select_mask m (col_any n rs)"
  by (induction rs) (simp_all add: select_mask_replicate select_mask_zip select_mask_map)

lemma map2_or_False: "length xs = n \<Longrightarrow> map2 (\<or>) (replicate n False) xs = xs"
  by (induction xs arbitrary: n) auto

lemma not_row_any: "\<not> row_any cs \<Longrightarrow> map (\<lambda>c. c \<noteq> 0) cs = replicate (length cs) False"
  by (induction cs) (auto simp: row_any_def)

lemma col_any_filter:
  "\<forall>cs \<in> set rs. length cs = n \<Longrightarrow> col_any n (filter row_any rs) = col_any n rs"
proof (induction rs)
  case Nil
  then show ?case by simp
next
  case (Cons cs rs)
  then show ?case
    by (auto simp: not_row_any map2_or_False length_col_any)
qed

text \<open>A mask dominates a row when it is set wherever the row is non-zero.\<close>

lemma row_any_select:
  "list_all2 (\<lambda>b c. c \<noteq> 0 \<longrightarrow> b) m cs \<Longrightarrow> row_any (select_mask m cs) = row_any cs"
  by (induction m cs rule: list_all2_induct) (auto simp: row_any_def)

lemma col_any_dominates:
  "\<forall>cs \<in> set rs. length cs = n \<Longrightarrow> cs \<in> set rs \<Longrightarrow>
   list_all2 (\<lambda>b c. c \<noteq> 0 \<longrightarrow> b) (col_any n rs) cs"
proof (induction rs)
  case Nil
  then show ?case by simp
next
  case (Cons r rs)
  have len: "length (col_any n rs) = n" using Cons.prems by (simp add: length_col_any)
  show ?case
  proof (cases "cs = r")
    case True
    then show ?thesis using Cons.prems len
      by (auto simp: list_all2_conv_all_nth)
  next
    case False
    then have "list_all2 (\<lambda>b c. c \<noteq> 0 \<longrightarrow> b) (col_any n rs) cs"
      using Cons by auto
    then show ?thesis using Cons.prems len
      by (auto simp: list_all2_conv_all_nth)
  qed
qed

lemma rectangular_cells:
  "rectangular df \<Longrightarrow> \<forall>cs \<in> set (map snd (rows df)). length cs = length (columns df)"
  by (auto simp: rectangular_def)

lemma length_col_mask: "rectangular df \<Longrightarrow> length (col_mask df) = length (columns df)"
  unfolding col_mask_def by (rule length_col_any) (rule rectangular_cells)

lemma map_snd_filter_rows:
  "map snd (filter (\<lambda>(k, cs). P cs) rs) = filter P (map snd rs)"
  by (induction rs) auto

lemma col_mask_drop_zero_rows: "rectangular df \<Longrightarrow> col_mask (drop_zero_rows df) = col_mask df"
  using col_any_filter [OF rectangular_cells, of df]
  by (simp add: col_mask_def drop_zero_rows_def map_snd_filter_rows)

lemma zero_filter_columns:
  "rectangular df \<Longrightarrow> columns (zero_filter df) = select_mask (col_mask df) (columns df)"
  using col_mask_drop_zero_rows [of df]
  by (simp add: zero_filter_def drop_zero_cols_def Let_def col_mask_def drop_zero_rows_def)

lemma zero_filter_rows:
  "rectangular df \<Longrightarrow> rows (zero_filter df) =
     map (\<lambda>(k, cs). (k, select_mask (col_mask df) cs)) (filter (\<lambda>(k, cs). row_any cs) (rows df))"
  using col_mask_drop_zero_rows [of df]
  by (simp add: zero_filter_def drop_zero_cols_def Let_def col_mask_def drop_zero_rows_def)

lemma zero_filter_names: "names (zero_filter df) = names df"
  by (simp add: zero_filter_def drop_zero_cols_def Let_def drop_zero_rows_def)

lemma zero_filter_more: "frame.more (zero_filter df) = frame.more df"
  by (simp add: zero_filter_def drop_zero_cols_def Let_def drop_zero_rows_def)

lemma row_dominated:
  "rectangular df \<Longrightarrow> (k, cs) \<in> set (rows df) \<Longrightarrow>
   list_all2 (\<lambda>b c. c \<noteq> 0 \<longrightarrow> b) (col_mask df) cs"
  unfolding col_mask_def
  by (rule col_any_dominates [OF rectangular_cells]) (auto intro: rev_image_eqI)

lemma row_any_select_mask:
  "rectangular df \<Longrightarrow> (k, cs) \<in> set (rows df) \<Longrightarrow>
   row_any (select_mask (col_mask df) cs) = row_any cs"
  by (rule row_any_select) (rule row_dominated)

lemma rectangular_zero_filter: "rectangular df \<Longrightarrow> rectangular (zero_filter df)"
proof -
  assume r: "rectangular df"
  have "length (select_mask (col_mask df) cs) = length (select_mask (col_mask df) (columns df))"
    if "(k, cs) \<in> set (rows df)" for k cs
    using that r length_col_mask [OF r]
    by (simp add: length_select_mask rectangular_def split_beta Ball_def)
  then show ?thesis
    unfolding rectangular_def using r
    by (auto simp: zero_filter_rows zero_filter_columns)
qed

lemma zero_filter_rows_nonzero:
  "rectangular df \<Longrightarrow> (k, cs) \<in> set (rows (zero_filter df)) \<Longrightarrow> row_any cs"
  by (auto simp: zero_filter_rows row_any_select_mask)

lemma col_mask_zero_filter:
  assumes r: "rectangular df"
  shows "col_mask (zero_filter df) = replicate (length (columns (zero_filter df))) True"
proof -
  let ?m = "col_mask df"
  have len: "length ?m = length (columns df)" by (rule length_col_mask [OF r])
  have cells: "map snd (rows (zero_filter df)) =
      map (select_mask ?m) (filter row_any (map snd (rows df)))"
    by (simp add: zero_filter_rows [OF r] map_snd_filter_rows [symmetric] split_beta)
  have lc: "length (columns (zero_filter df)) = length (filter id ?m)"
    by (simp add: zero_filter_columns [OF r] length_select_mask len)
  have "col_mask (zero_filter df) =
      col_any (length (filter id ?m)) (map (select_mask ?m) (filter row_any (map snd (rows df))))"
    by (simp add: col_mask_def cells lc)
  also have "\<dots> = select_mask ?m (col_any (length (columns df)) (filter row_any (map snd (rows df))))"
    by (rule col_any_select [OF len]) (use rectangular_cells [OF r] in auto)
  also have "\<dots> = select_mask ?m ?m"
    by (simp add: col_any_filter [OF rectangular_cells [OF r]] col_mask_def)
  finally show ?thesis by (simp add: select_mask_self lc)
qed

text \<open>
  C6: the leaf-level zero filter is idempotent: filtering an already filtered table
  (all-zero rows dropped, then all-zero columns) returns it unchanged.
\<close>

theorem zero_filter_idempotent:
  assumes r: "rectangular df"
  shows "zero_filter (zero_filter df) = zero_filter df"
proof (rule frame.equality)
  let ?f = "zero_filter df"
  have r': "rectangular ?f" by (rule rectangular_zero_filter [OF r])
  show "names (zero_filter ?f) = names ?f" by (rule zero_filter_names)
  show "frame.more (zero_filter ?f) = frame.more ?f" by (rule zero_filter_more)
  show "columns (zero_filter ?f) = columns ?f"
    by (simp add: zero_filter_columns [OF r'] col_mask_zero_filter [OF r] select_mask_all_True)
  have keep: "filter (\<lambda>(k, cs). row_any cs) (rows ?f) = rows ?f"
    using zero_filter_rows_nonzero [OF r] by (auto simp: filter_id_conv)
  have "map (\<lambda>(k, cs). (k, select_mask (col_mask ?f) cs)) (rows ?f) = map (\<lambda>x. x) (rows ?f)"
  proof (rule map_cong [OF refl])
    fix x assume x: "x \<in> set (rows ?f)"
    then have "length (snd x) = length (columns ?f)"
      using r' by (auto simp: rectangular_def)
    then show "(case x of (k, cs) \<Rightarrow> (k, select_mask (col_mask ?f) cs)) = x"
      by (simp add: col_mask_zero_filter [OF r] select_mask_all_True split_beta)
  qed
  then show "rows (zero_filter ?f) = rows ?f"
    by (simp add: zero_filter_rows [OF r'] keep)
qed

theorem zero_filter_idempotent_witness:
  "rectangular ex_leaf \<and> zero_filter ex_leaf \<noteq> ex_leaf \<and>
   zero_filter (zero_filter ex_leaf) = zero_filter ex_leaf"
proof -
  have r: "rectangular ex_leaf"
    by (simp add: rectangular_def ex_leaf_def)
  have "zero_filter ex_leaf \<noteq> ex_leaf"
    by (simp add: zero_filter_def drop_zero_cols_def drop_zero_rows_def ex_leaf_def row_any_def)
  with r zero_filter_idempotent [OF r] show ?thesis by simp
qed

text \<open>
  C9: the two passes of the leaf-level zero filter commute: dropping the all-zero rows
  and then the columns that are all-zero in what is left gives the same table as
  dropping the all-zero columns first and the all-zero rows second.
\<close>

theorem zero_filter_commute:
  assumes r: "rectangular df"
  shows "drop_zero_rows (drop_zero_cols df) = drop_zero_cols (drop_zero_rows df)"
proof -
  have m: "col_any (length (columns df)) (map snd (filter (\<lambda>(k, cs). row_any cs) (rows df)))
      = col_mask df"
    using col_mask_drop_zero_rows [OF r] by (simp add: col_mask_def drop_zero_rows_def)
  have "filter (\<lambda>(k, cs). row_any cs) (map (\<lambda>(k, cs). (k, select_mask (col_mask df) cs)) (rows df))
      = map (\<lambda>(k, cs). (k, select_mask (col_mask df) cs)) (filter (\<lambda>(k, cs). row_any cs) (rows df))"
    unfolding filter_map
    by (rule arg_cong [where f = "map _"], rule filter_cong [OF refl])
       (auto simp: row_any_select_mask [OF r])
  then show ?thesis
    using m by (simp add: drop_zero_rows_def drop_zero_cols_def Let_def col_mask_def)
qed

theorem zero_filter_commute_witness:
  "rectangular ex_leaf \<and>
   drop_zero_rows (drop_zero_cols ex_leaf) = drop_zero_cols (drop_zero_rows ex_leaf)"
proof -
  have r: "rectangular ex_leaf"
    by (simp add: rectangular_def ex_leaf_def)
  with zero_filter_commute [OF r] show ?thesis by simp
qed

section \<open>What the serializer returns\<close>

lemma update_fresh: "k \<notin> fst ` set al \<Longrightarrow> AList.update k v al = al @ [(k, v)]"
  by (induction al) auto

lemma fold_update_distinct:
  "distinct (map fst (acc @ kvs)) \<Longrightarrow>
   fold (\<lambda>(k, v) d. AList.update k v d) kvs acc = acc @ kvs"
proof (induction kvs arbitrary: acc)
  case Nil
  then show ?case by simp
next
  case (Cons kv kvs)
  obtain k v where kv: "kv = (k, v)" by (cases kv)
  have fresh: "k \<notin> fst ` set acc" using Cons.prems by (auto simp: kv)
  have "distinct (map fst ((acc @ [(k, v)]) @ kvs))" using Cons.prems by (simp add: kv)
  from Cons.IH [OF this] show ?case by (simp add: kv update_fresh [OF fresh])
qed

lemma py_dict_distinct: "distinct (map fst kvs) \<Longrightarrow> py_dict kvs = kvs"
  using fold_update_distinct [of "[]" kvs] by (simp add: py_dict_def)

lemma wf_frame_rectangular: "wf_frame df \<Longrightarrow> rectangular df"
  by (auto simp: wf_frame_def rectangular_def)

lemma to_dict_index_wf:
  assumes "wf_frame df"
  shows "to_dict_index df = Inr (Leaf (leaf_of df))"
proof -
  have "py_dict (zip (columns df) cs) = zip (columns df) cs" if "(k, cs) \<in> set (rows df)" for k cs
    using that assms by (intro py_dict_distinct) (auto simp: wf_frame_def)
  then have "map (\<lambda>(k, cs). (hd k, py_dict (zip (columns df) cs))) (rows df) = leaf_of df"
    unfolding leaf_of_def by (intro map_cong) auto
  then show ?thesis using assms by (simp add: to_dict_index_def wf_frame_def)
qed

lemma map_of_flat:
  "\<forall>(k, cs) \<in> set rs. length k = 1 \<Longrightarrow>
   map_of (map (\<lambda>(k, cs). (hd k, f cs)) rs) r = map_option f (map_of rs [r])"
proof (induction rs)
  case Nil
  then show ?case by simp
next
  case (Cons x rs)
  obtain k cs where x: "x = (k, cs)" by (cases x)
  from Cons.prems have "length k = 1" by (simp add: x)
  then obtain l where k: "k = [l]" by (cases k) auto
  from Cons show ?case by (simp add: x k)
qed

lemma leaf_lookup_leaf_of:
  assumes "wf_frame df" "nlevels df = 1"
  shows "leaf_lookup (leaf_of df) r c = frame_lookup df [r] c"
proof -
  have "\<forall>(k, cs) \<in> set (rows df). length k = 1" using assms by (auto simp: wf_frame_def)
  from map_of_flat [OF this, of "zip (columns df)" r] show ?thesis
    by (simp add: leaf_lookup_def leaf_of_def frame_lookup_def split: option.splits)
qed

lemma leaf_cols_leaf_of:
  assumes "wf_frame df" "nlevels df = 1"
  shows "leaf_cols (leaf_of df) r = (case map_of (rows df) [r] of None \<Rightarrow> [] | Some cs \<Rightarrow> columns df)"
proof -
  have f: "\<forall>(k, cs) \<in> set (rows df). length k = 1" using assms by (auto simp: wf_frame_def)
  have "length cs = length (columns df)" if "map_of (rows df) [r] = Some cs" for cs
    using map_of_SomeD [OF that] assms by (auto simp: wf_frame_def)
  with map_of_flat [OF f, of "zip (columns df)" r] show ?thesis
    by (auto simp: leaf_cols_def leaf_of_def split: option.splits)
qed

lemma keys_leaf_of:
  "map fst (leaf_of df) = map (\<lambda>(k, cs). hd k) (rows df)"
  by (simp add: leaf_of_def split_beta)

lemma set_select_mask_subset: "set (select_mask m xs) \<subseteq> set xs"
  by (auto simp: select_mask_def dest: set_zip_rightD)

lemma map_of_select:
  "length m = length cols \<Longrightarrow> length cols = length cs \<Longrightarrow> distinct cols \<Longrightarrow>
   map_of (zip (select_mask m cols) (select_mask m cs)) c =
     (if c \<in> set (select_mask m cols) then map_of (zip cols cs) c else None)"
proof (induction m cols cs rule: list_induct3)
  case Nil
  then show ?case by simp
next
  case (Cons b m col cols v cs)
  have "col \<notin> set (select_mask m cols)"
    using Cons.prems set_select_mask_subset [of m cols] by auto
  with Cons show ?case by auto
qed

lemma in_select_nonzero:
  "length cs = length cols \<Longrightarrow> distinct cols \<Longrightarrow>
   c \<in> set (select_mask (map (\<lambda>c. c \<noteq> 0) cs) cols) \<longleftrightarrow>
     (\<exists>v. map_of (zip cols cs) c = Some v \<and> v \<noteq> 0)"
proof (induction cs cols rule: list_induct2)
  case Nil
  then show ?case by simp
next
  case (Cons v cs col cols)
  have "col \<notin> set (select_mask (map (\<lambda>c. c \<noteq> 0) cs) cols)"
    using Cons.prems set_select_mask_subset [of _ cols] by auto
  with Cons show ?case by auto
qed

lemma set_select_or:
  "length m1 = length xs \<Longrightarrow> length xs = length m2 \<Longrightarrow>
   set (select_mask (map2 (\<or>) m1 m2) xs) = set (select_mask m1 xs) \<union> set (select_mask m2 xs)"
proof (induction m1 xs m2 rule: list_induct3)
  case Nil
  then show ?case by simp
next
  case (Cons b m1 x xs b' m2)
  then show ?case by auto
qed

lemma select_mask_all_False: "select_mask (replicate n False) xs = []"
  by (induction xs arbitrary: n) (auto simp: select_mask_def zip_replicate1 filter_empty_conv dest!: set_zip_leftD)

lemma in_select_col_any:
  "distinct cols \<Longrightarrow> \<forall>cs \<in> set rs. length cs = length cols \<Longrightarrow>
   c \<in> set (select_mask (col_any (length cols) rs) cols) \<longleftrightarrow>
     (\<exists>cs \<in> set rs. \<exists>v. map_of (zip cols cs) c = Some v \<and> v \<noteq> 0)"
proof (induction rs)
  case Nil
  then show ?case by (simp add: select_mask_all_False)
next
  case (Cons r rs)
  have "length (col_any (length cols) rs) = length cols"
    using Cons.prems by (intro length_col_any) auto
  with Cons show ?case
    by (simp add: set_select_or in_select_nonzero)
qed

lemma distinct_select_mask: "distinct xs \<Longrightarrow> distinct (select_mask m xs)"
proof (induction m arbitrary: xs)
  case Nil
  then show ?case by simp
next
  case (Cons b m)
  show ?case
  proof (cases xs)
    case Nil
    then show ?thesis by simp
  next
    case (Cons x xs')
    with Cons.prems Cons.IH [of xs'] set_select_mask_subset [of m xs'] show ?thesis by auto
  qed
qed

lemma wf_zero_filter:
  assumes wf: "wf_frame df"
  shows "wf_frame (zero_filter df)"
proof -
  have r: "rectangular df" by (rule wf_frame_rectangular [OF wf])
  have r': "rectangular (zero_filter df)" by (rule rectangular_zero_filter [OF r])
  have keys: "map fst (rows (zero_filter df)) = map fst (filter (\<lambda>(k, cs). row_any cs) (rows df))"
    by (simp add: zero_filter_rows [OF r] split_beta)
  have "distinct (map fst (rows (zero_filter df)))"
    unfolding keys using wf by (simp add: wf_frame_def distinct_map_filter)
  moreover have "distinct (columns (zero_filter df))"
    using wf by (simp add: zero_filter_columns [OF r] distinct_select_mask wf_frame_def)
  moreover have "length k = nlevels (zero_filter df)" if "(k, cs) \<in> set (rows (zero_filter df))" for k cs
  proof -
    from that have "k \<in> set (map fst (rows (zero_filter df)))" by force
    then have "k \<in> fst ` set (rows df)" unfolding keys by auto
    then show ?thesis using wf by (auto simp: wf_frame_def nlevels_def zero_filter_names)
  qed
  moreover have "0 < nlevels (zero_filter df)"
    using wf by (simp add: wf_frame_def nlevels_def zero_filter_names)
  ultimately show ?thesis using r' by (auto simp: wf_frame_def rectangular_def)
qed

lemma map_of_map_filter:
  "distinct (map fst rs) \<Longrightarrow>
   map_of (map (\<lambda>(k, cs). (k, f cs)) (filter (\<lambda>(k, cs). P cs) rs)) p =
     (case map_of rs p of None \<Rightarrow> None | Some cs \<Rightarrow> if P cs then Some (f cs) else None)"
proof (induction rs)
  case Nil
  then show ?case by simp
next
  case (Cons x rs)
  obtain k cs where x: "x = (k, cs)" by (cases x)
  have "map_of rs k = None" using Cons.prems by (simp add: x map_of_eq_None_iff)
  with Cons show ?case by (auto simp: x)
qed

lemma in_select_col_mask:
  assumes wf: "wf_frame df"
  shows "c \<in> set (select_mask (col_mask df) (columns df)) \<longleftrightarrow> \<not> col_zero_all df c"
proof -
  have len: "\<forall>cs \<in> set (map snd (rows df)). length cs = length (columns df)"
    using wf by (auto simp: wf_frame_def)
  have dc: "distinct (columns df)" using wf by (simp add: wf_frame_def)
  have "c \<in> set (select_mask (col_mask df) (columns df)) \<longleftrightarrow>
      (\<exists>cs \<in> set (map snd (rows df)). \<exists>v. map_of (zip (columns df) cs) c = Some v \<and> v \<noteq> 0)"
    unfolding col_mask_def by (rule in_select_col_any [OF dc len])
  also have "\<dots> \<longleftrightarrow> \<not> col_zero_all df c"
    by (force simp: col_zero_all_def split: option.splits)
  finally show ?thesis .
qed

lemma frame_lookup_zero_filter_all:
  assumes wf: "wf_frame df"
  shows "frame_lookup (zero_filter df) path c =
     (if row_is_zero df path \<or> col_zero_all df c then None else frame_lookup df path c)"
proof -
  have r: "rectangular df" by (rule wf_frame_rectangular [OF wf])
  have d: "distinct (map fst (rows df))" using wf by (simp add: wf_frame_def)
  let ?m = "col_mask df"
  note mo = map_of_map_filter [OF d, of "select_mask ?m" row_any path]
  show ?thesis
  proof (cases "map_of (rows df) path")
    case None
    then show ?thesis using mo
      by (simp add: frame_lookup_def zero_filter_rows [OF r] row_is_zero_def)
  next
    case (Some cs)
    then have len: "length cs = length (columns df)"
      using map_of_SomeD [OF Some] wf by (auto simp: wf_frame_def)
    have sel: "map_of (zip (select_mask ?m (columns df)) (select_mask ?m cs)) c =
        (if c \<in> set (select_mask ?m (columns df)) then map_of (zip (columns df) cs) c else None)"
      using wf len length_col_mask [OF r]
      by (intro map_of_select) (auto simp: wf_frame_def)
    show ?thesis using mo Some sel
      by (simp add: frame_lookup_def zero_filter_rows [OF r] zero_filter_columns [OF r]
          row_is_zero_def in_select_col_mask [OF wf])
  qed
qed

lemma col_is_zero_flat:
  assumes "wf_frame df" "nlevels df = 1" "length path = 1"
  shows "col_is_zero df path c = col_zero_all df c"
proof -
  have "butlast k = butlast path" if "(k, cs) \<in> set (rows df)" for k cs
  proof -
    from that assms have "length k = 1" by (auto simp: wf_frame_def)
    then show ?thesis using assms(3) by (cases k; cases path) auto
  qed
  then show ?thesis unfolding col_is_zero_def col_zero_all_def by auto
qed

lemma map_of_wrong_length:
  assumes "wf_frame df" "length path \<noteq> nlevels df"
  shows "map_of (rows df) path = None"
proof (rule ccontr)
  assume "map_of (rows df) path \<noteq> None"
  then obtain cs where "map_of (rows df) path = Some cs" by auto
  from map_of_SomeD [OF this] assms show False by (auto simp: wf_frame_def)
qed

lemma frame_lookup_zero_filter:
  assumes wf: "wf_frame df" and flat: "nlevels df = 1"
  shows "frame_lookup (zero_filter df) path c =
     (if row_is_zero df path \<or> col_is_zero df path c then None else frame_lookup df path c)"
proof (cases "length path = 1")
  case True
  then show ?thesis
    by (simp add: frame_lookup_zero_filter_all [OF wf] col_is_zero_flat [OF wf flat True])
next
  case False
  then have "map_of (rows df) path = None" using map_of_wrong_length [OF wf] flat by simp
  then show ?thesis
    by (simp add: frame_lookup_zero_filter_all [OF wf] row_is_zero_def)
qed

lemma collect_Inr:
  "\<forall>k \<in> set ks. f k = Inr (g k) \<Longrightarrow>
   collect (map (\<lambda>k. (k, f k)) ks) = Inr (map (\<lambda>k. (k, g k)) ks)"
  by (induction ks) auto

lemma set_group_keys: "set (group_keys df) = (\<lambda>(k, cs). hd k) ` set (rows df)"
  by (simp add: group_keys_def)

lemma nlevels_sub: "nlevels (droplevel0 (get_group df name)) = nlevels df - 1"
  by (simp add: nlevels_def droplevel0_def get_group_def)

lemma columns_sub: "columns (droplevel0 (get_group df name)) = columns df"
  by (simp add: droplevel0_def get_group_def)

lemma rows_sub:
  "rows (droplevel0 (get_group df name)) =
     map (\<lambda>(k, cs). (tl k, cs)) (filter (\<lambda>(k, cs). hd k = name) (rows df))"
  by (simp add: droplevel0_def get_group_def)

lemma wf_sub:
  assumes wf: "wf_frame df" and multi: "is_multiindex df"
  shows "wf_frame (droplevel0 (get_group df name))"
proof -
  let ?g = "filter (\<lambda>(k, cs). hd k = name) (rows df)"
  have len: "length k = nlevels df" if "(k, cs) \<in> set (rows df)" for k cs
    using that wf by (auto simp: wf_frame_def)
  have inj: "inj_on tl (set (map fst ?g))"
  proof (rule inj_onI)
    fix x y assume x: "x \<in> set (map fst ?g)" and y: "y \<in> set (map fst ?g)" and t: "tl x = tl y"
    from x obtain cx where cx: "(x, cx) \<in> set (rows df)" "hd x = name" by auto
    from y obtain cy where cy: "(y, cy) \<in> set (rows df)" "hd y = name" by auto
    from len [OF cx(1)] len [OF cy(1)] multi have "x \<noteq> []" "y \<noteq> []"
      by (auto simp: is_multiindex_def)
    moreover have "hd x = hd y" using cx cy by simp
    ultimately have "hd x = hd y" "x \<noteq> []" "y \<noteq> []" by simp_all
    with t show "x = y" by (simp add: list.expand)
  qed
  have "distinct (map fst ?g)" using wf by (simp add: wf_frame_def distinct_map_filter)
  then have "distinct (map tl (map fst ?g))"
    using inj distinct_map [of tl "map fst ?g"] by blast
  then have d: "distinct (map fst (rows (droplevel0 (get_group df name))))"
    by (simp add: rows_sub split_beta comp_def)
  have "length k = nlevels df - 1 \<and> length cs = length (columns df)"
    if "(k, cs) \<in> set (rows (droplevel0 (get_group df name)))" for k cs
    using that wf by (auto simp: rows_sub wf_frame_def)
  with d wf multi show ?thesis
    by (auto simp: wf_frame_def nlevels_sub columns_sub is_multiindex_def)
qed

lemma map_of_sub:
  "\<forall>(k', cs) \<in> set rs. k' \<noteq> [] \<Longrightarrow>
   map_of (map (\<lambda>(k', cs). (tl k', cs)) (filter (\<lambda>(k', cs). hd k' = k) rs)) ks = map_of rs (k # ks)"
proof (induction rs)
  case Nil
  then show ?case by simp
next
  case (Cons x rs)
  obtain k' cs where x: "x = (k', cs)" by (cases x)
  from Cons.prems obtain a as where k': "k' = a # as" by (cases k') (auto simp: x)
  from Cons show ?case by (auto simp: x k')
qed

lemma keys_nonempty:
  "wf_frame df \<Longrightarrow> \<forall>(k, cs) \<in> set (rows df). k \<noteq> []"
  by (auto simp: wf_frame_def)

lemma map_of_rows_sub:
  "wf_frame df \<Longrightarrow> map_of (rows (droplevel0 (get_group df k))) ks = map_of (rows df) (k # ks)"
  unfolding rows_sub by (rule map_of_sub) (rule keys_nonempty)

lemma frame_lookup_sub:
  "wf_frame df \<Longrightarrow> frame_lookup (droplevel0 (get_group df k)) ks c = frame_lookup df (k # ks) c"
  by (simp add: frame_lookup_def map_of_rows_sub columns_sub cong: option.case_cong)

lemma row_is_zero_sub:
  "wf_frame df \<Longrightarrow> row_is_zero (droplevel0 (get_group df k)) ks = row_is_zero df (k # ks)"
  by (simp add: row_is_zero_def map_of_rows_sub)

lemma col_is_zero_sub:
  assumes wf: "wf_frame df" and multi: "is_multiindex df" and ks: "ks \<noteq> []"
  shows "col_is_zero (droplevel0 (get_group df k)) ks c = col_is_zero df (k # ks) c"
proof -
  define q where "q = butlast (k # ks)"
  have eq: "(hd k' = k \<and> butlast (tl k') = butlast ks) = (butlast k' = q)"
    if "(k', cs) \<in> set (rows df)" for k' cs
  proof -
    from that wf multi have "2 \<le> length k'" by (auto simp: wf_frame_def is_multiindex_def)
    then obtain a b bs where "k' = a # b # bs" by (cases k'; cases "tl k'") auto
    then show ?thesis using ks by (auto simp: q_def)
  qed
  have "col_is_zero (droplevel0 (get_group df k)) ks c \<longleftrightarrow>
      (\<forall>(k', cs) \<in> set (rows df). hd k' = k \<and> butlast (tl k') = butlast ks \<longrightarrow>
        (case map_of (zip (columns df) cs) c of None \<Rightarrow> True | Some v \<Rightarrow> v = 0))"
    unfolding col_is_zero_def rows_sub columns_sub by (auto simp: split_beta)
  also have "\<dots> \<longleftrightarrow> (\<forall>(k', cs) \<in> set (rows df). butlast k' = q \<longrightarrow>
        (case map_of (zip (columns df) cs) c of None \<Rightarrow> True | Some v \<Rightarrow> v = 0))"
  proof (intro ball_cong refl)
    fix x assume x: "x \<in> set (rows df)"
    obtain k' cs where xe: "x = (k', cs)" by (cases x)
    from eq [of k' cs] x show "(case x of (k', cs) \<Rightarrow> hd k' = k \<and> butlast (tl k') = butlast ks \<longrightarrow>
        (case map_of (zip (columns df) cs) c of None \<Rightarrow> True | Some v \<Rightarrow> v = 0)) =
      (case x of (k', cs) \<Rightarrow> butlast k' = q \<longrightarrow>
        (case map_of (zip (columns df) cs) c of None \<Rightarrow> True | Some v \<Rightarrow> v = 0))"
      by (simp add: xe)
  qed
  finally show ?thesis unfolding col_is_zero_def q_def .
qed

lemma map_of_group_None:
  assumes "k \<notin> (\<lambda>(k, cs). hd k) ` set rs"
  shows "map_of rs (k # ks) = None"
proof -
  have "k # ks \<notin> fst ` set rs"
  proof
    assume "k # ks \<in> fst ` set rs"
    then obtain cs where "(k # ks, cs) \<in> set rs" by auto
    then have "k \<in> (\<lambda>(k, cs). hd k) ` set rs" by force
    with assms show False by simp
  qed
  then show ?thesis by (simp add: map_of_eq_None_iff)
qed

lemma map_of_keyed: "map_of (map (\<lambda>k. (k, g k)) ks) k = (if k \<in> set ks then Some (g k) else None)"
  by (induction ks) auto

lemma frame_lookup_wrong_length:
  "wf_frame df \<Longrightarrow> length path \<noteq> nlevels df \<Longrightarrow> frame_lookup df path c = None"
  by (simp add: frame_lookup_def map_of_wrong_length)

lemma df_to_dict_flat:
  assumes wf: "wf_frame df" and flat: "\<not> is_multiindex df"
  shows "df_to_dict df z = Inr (Leaf (leaf_of (if z then zero_filter df else df)))"
  using flat wf
  by (subst df_to_dict.simps) (simp add: to_dict_index_wf wf_zero_filter)

lemma nlevels_flat: "wf_frame df \<Longrightarrow> \<not> is_multiindex df \<Longrightarrow> nlevels df = 1"
  by (auto simp: wf_frame_def is_multiindex_def)

lemma nlevels_zero_filter: "nlevels (zero_filter df) = nlevels df"
  by (simp add: nlevels_def zero_filter_names)

lemma lookup_spec_flat:
  assumes wf: "wf_frame df" and flat: "\<not> is_multiindex df"
  shows "lookup_spec df z (Leaf (leaf_of (if z then zero_filter df else df)))"
  unfolding lookup_spec_def
proof (intro allI)
  fix path c
  have n1: "nlevels df = 1" by (rule nlevels_flat [OF wf flat])
  let ?df' = "if z then zero_filter df else df"
  have wf': "wf_frame ?df'" using wf by (simp add: wf_zero_filter)
  have n1': "nlevels ?df' = 1" using n1 by (simp add: nlevels_zero_filter)
  show "nd_lookup (Leaf (leaf_of ?df')) path c =
     (if (is_multiindex df \<or> z) \<and> (row_is_zero df path \<or> col_is_zero df path c) then None
      else frame_lookup df path c)"
  proof (cases "\<exists>r. path = [r]")
    case True
    then obtain r where p: "path = [r]" by auto
    have "nd_lookup (Leaf (leaf_of ?df')) path c = frame_lookup ?df' path c"
      by (simp add: p leaf_lookup_leaf_of [OF wf' n1'])
    then show ?thesis using flat
      by (simp add: frame_lookup_zero_filter [OF wf n1])
  next
    case False
    then have "length path \<noteq> 1" by (cases path) auto
    then have "frame_lookup df path c = None"
      using frame_lookup_wrong_length [OF wf] n1 by simp
    moreover have "nd_lookup (Leaf (leaf_of ?df')) path c = None"
      using False by (cases path; cases "tl path") auto
    ultimately show ?thesis by simp
  qed
qed

lemma df_to_dict_spec:
  "wf_frame df \<Longrightarrow>
   \<exists>d. df_to_dict df z = Inr d \<and> nd_levels (nlevels df - 1) d \<and> lookup_spec df z d"
proof (induction df z rule: df_to_dict.induct)
  case (1 df z)
  note wf = \<open>wf_frame df\<close>
  show ?case
  proof (cases "is_multiindex df")
    case False
    have "nlevels df - 1 = 0" using nlevels_flat [OF wf False] by simp
    then show ?thesis
      using df_to_dict_flat [OF wf False, of z] lookup_spec_flat [OF wf False, of z] by simp
  next
    case True
    define sub where "sub name = droplevel0 (get_group df name)" for name
    define g where "g name = projr (df_to_dict (sub name) True)" for name
    have ih: "df_to_dict (sub name) True = Inr (g name) \<and>
        nd_levels (nlevels (sub name) - 1) (g name) \<and> lookup_spec (sub name) True (g name)"
      if "name \<in> set (group_keys df)" for name
    proof -
      from "1.IH" [OF True that wf_sub [OF wf True]]
      obtain d where d: "df_to_dict (sub name) True = Inr d"
        "nd_levels (nlevels (sub name) - 1) d" "lookup_spec (sub name) True d"
        unfolding sub_def by blast
      then show ?thesis by (simp add: g_def)
    qed
    let ?kids = "map (\<lambda>name. (name, g name)) (group_keys df)"
    have "collect (map (\<lambda>name. (name, df_to_dict (sub name) True)) (group_keys df)) = Inr ?kids"
      by (rule collect_Inr) (use ih in blast)
    then have res: "df_to_dict df z = Inr (Node ?kids)"
      using True by (subst df_to_dict.simps) (simp add: sub_def)
    have nl: "nlevels df - 1 = Suc (nlevels df - 2)"
      using True by (simp add: is_multiindex_def)
    have nsub: "nlevels (sub name) - 1 = nlevels df - 2" for name
      by (simp add: sub_def nlevels_sub)
    have "nd_levels (nlevels df - 2) (g name)" if "name \<in> set (group_keys df)" for name
      using ih [OF that] nsub [of name] by simp
    then have "nd_levels (Suc (nlevels df - 2)) (Node ?kids)"
      by auto
    then have lev: "nd_levels (nlevels df - 1) (Node ?kids)"
      by (simp only: nl)
    have look: "lookup_spec df z (Node ?kids)"
      unfolding lookup_spec_def
    proof (intro allI)
      fix path c
      show "nd_lookup (Node ?kids) path c =
        (if (is_multiindex df \<or> z) \<and> (row_is_zero df path \<or> col_is_zero df path c) then None
         else frame_lookup df path c)"
      proof (cases path)
        case Nil
        have "frame_lookup df [] c = None"
          using frame_lookup_wrong_length [OF wf, of "[]"] wf by (simp add: wf_frame_def)
        then show ?thesis by (simp add: Nil)
      next
        case (Cons k ks)
        show ?thesis
        proof (cases "k \<in> set (group_keys df)")
          case False
          then have "map_of (rows df) (k # ks) = None"
            by (intro map_of_group_None) (simp add: set_group_keys)
          then show ?thesis using False
            by (simp add: Cons map_of_keyed frame_lookup_def)
        next
          case in_keys: True
          have l: "nd_lookup (Node ?kids) path c = nd_lookup (g k) ks c"
            using in_keys by (simp add: Cons map_of_keyed)
          from ih [OF in_keys] have ls: "lookup_spec (sub k) True (g k)" by simp
          show ?thesis
          proof (cases "ks = []")
            case ks: True
            have "length (k # ks) \<noteq> nlevels df" using True ks by (simp add: is_multiindex_def)
            then have a: "frame_lookup df (k # ks) c = None"
              by (rule frame_lookup_wrong_length [OF wf])
            then have "frame_lookup (sub k) ks c = None"
              by (simp add: sub_def frame_lookup_sub [OF wf])
            with ls have "nd_lookup (g k) ks c = None"
              by (simp add: lookup_spec_def)
            with a l show ?thesis by (simp add: Cons)
          next
            case ks: False
            from ls have "nd_lookup (g k) ks c =
               (if row_is_zero (sub k) ks \<or> col_is_zero (sub k) ks c then None
                else frame_lookup (sub k) ks c)"
              by (simp add: lookup_spec_def)
            then show ?thesis using True l
              by (simp add: Cons sub_def frame_lookup_sub [OF wf] row_is_zero_sub [OF wf]
                  col_is_zero_sub [OF wf True ks])
          qed
        qed
      qed
    qed
    from res lev look show ?thesis by blast
  qed
qed

section \<open>Properties of the serializer\<close>

lemma in_leaf_cols:
  assumes c: "c \<in> set (leaf_cols m r)"
  shows "\<exists>v. leaf_lookup m r c = Some v"
proof (cases "map_of m r")
  case None
  with c show ?thesis by (simp add: leaf_cols_def)
next
  case (Some row)
  from c have "c \<in> fst ` set row" by (simp add: leaf_cols_def Some)
  then have "map_of row c \<noteq> None" by (simp add: map_of_eq_None_iff)
  then show ?thesis by (auto simp: leaf_lookup_def Some)
qed

lemma leaf_super_refl: "leaf_super m m"
  unfolding leaf_super_def using in_leaf_cols [of _ m] by fastforce

lemma nd_super_refl: "nd_super d d"
proof (induction d)
  case (Leaf m)
  show ?case by (simp add: leaf_super_refl)
next
  case (Node kids)
  have "list_all2 (\<lambda>x y. fst x = fst y \<and> nd_super (snd x) (snd y)) kids kids"
  proof (rule list_all2_all_nthI)
    show "length kids = length kids" by simp
  next
    fix n assume n: "n < length kids"
    then have "kids ! n \<in> set kids" by simp
    moreover have "snd (kids ! n) \<in> Basic_BNFs.snds (kids ! n)"
      by (cases "kids ! n") simp
    ultimately have "nd_super (snd (kids ! n)) (snd (kids ! n))" by (rule Node.IH)
    then show "fst (kids ! n) = fst (kids ! n) \<and> nd_super (snd (kids ! n)) (snd (kids ! n))"
      by simp
  qed
  then show ?case by simp
qed

lemma keys_zero_filter:
  "rectangular df \<Longrightarrow> set (map fst (rows (zero_filter df))) \<subseteq> set (map fst (rows df))"
  by (force simp: zero_filter_rows)

lemma leaf_super_zero_filter:
  assumes wf: "wf_frame df" and n1: "nlevels df = 1"
  shows "leaf_super (leaf_of (zero_filter df)) (leaf_of df)"
proof -
  let ?A = "leaf_of (zero_filter df)" and ?B = "leaf_of df"
  have wf': "wf_frame (zero_filter df)" by (rule wf_zero_filter [OF wf])
  have n1': "nlevels (zero_filter df) = 1" by (simp add: nlevels_zero_filter n1)
  have A: "leaf_lookup ?A r c =
      (if row_is_zero df [r] \<or> col_is_zero df [r] c then None else frame_lookup df [r] c)" for r c
    by (simp add: leaf_lookup_leaf_of [OF wf' n1'] frame_lookup_zero_filter [OF wf n1])
  have B: "leaf_lookup ?B r c = frame_lookup df [r] c" for r c
    by (rule leaf_lookup_leaf_of [OF wf n1])
  have keys: "set (map fst ?A) \<subseteq> set (map fst ?B)"
  proof
    fix r assume "r \<in> set (map fst ?A)"
    then obtain k cs where "(k, cs) \<in> set (rows (zero_filter df))" "r = hd k"
      by (auto simp: keys_leaf_of)
    moreover from this keys_zero_filter [OF wf_frame_rectangular [OF wf]]
    obtain cs' where "(k, cs') \<in> set (rows df)" by force
    ultimately show "r \<in> set (map fst ?B)" by (force simp: keys_leaf_of)
  qed
  have common: "leaf_lookup ?B r c = leaf_lookup ?A r c" if "c \<in> set (leaf_cols ?A r)" for r c
  proof -
    from in_leaf_cols [OF that] obtain v where "leaf_lookup ?A r c = Some v" ..
    then show ?thesis by (simp add: A B split: if_splits)
  qed
  have diff: "leaf_zero_row ?B r \<or> leaf_zero_col ?B c"
    if c: "c \<in> set (leaf_cols ?B r)" and none: "leaf_lookup ?A r c = None" for r c
  proof -
    from in_leaf_cols [OF c] obtain v where v: "frame_lookup df [r] c = Some v" by (auto simp: B)
    then obtain cs where cs: "map_of (rows df) [r] = Some cs"
      by (auto simp: frame_lookup_def split: option.splits)
    from none v have "row_is_zero df [r] \<or> col_is_zero df [r] c"
      by (simp add: A split: if_splits)
    then show ?thesis
    proof
      assume "row_is_zero df [r]"
      then have z: "\<forall>x \<in> set cs. x = 0" by (simp add: row_is_zero_def cs row_any_def)
      have "leaf_lookup ?B r c' = Some 0" if "c' \<in> set (leaf_cols ?B r)" for c'
      proof -
        from in_leaf_cols [OF that] obtain w where w: "map_of (zip (columns df) cs) c' = Some w"
          by (auto simp: B frame_lookup_def cs)
        then have "w \<in> set cs" by (auto dest!: map_of_SomeD set_zip_rightD)
        with z w show ?thesis by (simp add: B frame_lookup_def cs)
      qed
      then show ?thesis by (simp add: leaf_zero_row_def)
    next
      assume cz: "col_is_zero df [r] c"
      have "case leaf_lookup ?B r' c of None \<Rightarrow> True | Some v \<Rightarrow> v = 0" for r'
      proof (cases "map_of (rows df) [r']")
        case None
        then show ?thesis by (simp add: B frame_lookup_def)
      next
        case (Some cs')
        then have "([r'], cs') \<in> set (rows df)" by (rule map_of_SomeD)
        with cz have "case map_of (zip (columns df) cs') c of None \<Rightarrow> True | Some v \<Rightarrow> v = 0"
          by (auto simp: col_is_zero_def)
        then show ?thesis by (simp add: B frame_lookup_def Some)
      qed
      then show ?thesis by (simp add: leaf_zero_col_def)
    qed
  qed
  show ?thesis
    unfolding leaf_super_def using keys common diff by blast
qed

lemma frame_lookup_SomeD:
  assumes wf: "wf_frame df" and "frame_lookup df path c = Some v"
  shows "length path = nlevels df \<and> c \<in> set (columns df)"
proof -
  from assms(2) obtain cs where cs: "map_of (rows df) path = Some cs"
    "map_of (zip (columns df) cs) c = Some v"
    by (auto simp: frame_lookup_def split: option.splits)
  from map_of_SomeD [OF cs(1)] wf have "length path = nlevels df" by (auto simp: wf_frame_def)
  moreover from map_of_SomeD [OF cs(2)] have "c \<in> set (columns df)" by (rule set_zip_leftD)
  ultimately show ?thesis by simp
qed

lemma wf_ex_leaf: "wf_frame ex_leaf"
  by (simp add: wf_frame_def ex_leaf_def nlevels_def)

lemma wf_ex_multi: "wf_frame ex_multi"
  by (simp add: wf_frame_def ex_multi_def nlevels_def)

lemma multi_ex_multi: "is_multiindex ex_multi"
  by (simp add: is_multiindex_def ex_multi_def nlevels_def)

lemma ex_leaf_True:
  "df_to_dict ex_leaf True =
     Inr (Leaf [(LStr ''Steel'', [(LInt 2020, 5), (LInt 2022, 0)]),
                (LStr ''Zinc'', [(LInt 2020, 1), (LInt 2022, 2)])])"
  by code_simp

lemma ex_leaf_False:
  "df_to_dict ex_leaf False =
     Inr (Leaf [(LStr ''Steel'', [(LInt 2020, 5), (LInt 2021, 0), (LInt 2022, 0)]),
                (LStr ''Wood'', [(LInt 2020, 0), (LInt 2021, 0), (LInt 2022, 0)]),
                (LStr ''Zinc'', [(LInt 2020, 1), (LInt 2021, 0), (LInt 2022, 2)])])"
  by code_simp

lemma ex_multi_False:
  "df_to_dict ex_multi False =
     Inr (Node [(LStr ''Kenya'', Node [(LStr ''Base'', Leaf [(LStr ''Steel'', [(LInt 2020, 5)])])]),
                (LStr ''Rwanda'', Node [(LStr ''Base'', Leaf [(LStr ''Steel'', [(LInt 2020, 1), (LInt 2021, 2)])])])])"
  by code_simp

text \<open>
  C1: for every well-formed table, serializing with zeros preserved
  (\<^verbatim>\<open>drop_full_zeros=False\<close>) and with zeros dropped (\<^verbatim>\<open>drop_full_zeros=True\<close>) both
  succeed, and the first result is a row- and column-wise superset of the second: the
  same outer keys, every cell of the second in the first with the same value, and every
  cell only in the first in an all-zero row or an all-zero column of its leaf.
\<close>

theorem preserve_zeros_superset:
  assumes wf: "wf_frame df"
  shows "\<exists>a b. df_to_dict df True = Inr a \<and> df_to_dict df False = Inr b \<and> nd_super a b"
proof (cases "is_multiindex df")
  case True
  from df_to_dict_spec [OF wf, of True] obtain d where d: "df_to_dict df True = Inr d" by blast
  have "df_to_dict df False = df_to_dict df True"
    using True by (simp add: df_to_dict.simps [of df])
  with d nd_super_refl [of d] show ?thesis by simp
next
  case False
  have n1: "nlevels df = 1" by (rule nlevels_flat [OF wf False])
  show ?thesis
    using df_to_dict_flat [OF wf False, of True] df_to_dict_flat [OF wf False, of False]
      leaf_super_zero_filter [OF wf n1]
    by simp
qed

theorem preserve_zeros_superset_witness:
  "wf_frame ex_leaf \<and>
   (\<exists>a b. df_to_dict ex_leaf True = Inr a \<and> df_to_dict ex_leaf False = Inr b \<and> nd_super a b)"
  using wf_ex_leaf preserve_zeros_superset [OF wf_ex_leaf] by (rule conjI)

text \<open>
  C8: for a table whose row index has more than one level the result of \<^verbatim>\<open>df_to_dict\<close>
  does not depend on \<^verbatim>\<open>drop_full_zeros\<close>: the recursive call leaves the flag out, so
  with \<^verbatim>\<open>drop_full_zeros=False\<close> too no cell of an all-zero row or all-zero column of a
  leaf table is in the result.
\<close>

theorem df_to_dict_ignores_flag:
  assumes multi: "is_multiindex df"
  shows "df_to_dict df drop_full_zeros = df_to_dict df True \<and>
     (wf_frame df \<longrightarrow>
        (\<exists>d. df_to_dict df False = Inr d \<and>
           (\<forall>path c. row_is_zero df path \<or> col_is_zero df path c \<longrightarrow> nd_lookup d path c = None)))"
proof
  show "df_to_dict df drop_full_zeros = df_to_dict df True"
    using multi by (simp add: df_to_dict.simps [of df])
  show "wf_frame df \<longrightarrow>
        (\<exists>d. df_to_dict df False = Inr d \<and>
           (\<forall>path c. row_is_zero df path \<or> col_is_zero df path c \<longrightarrow> nd_lookup d path c = None))"
  proof
    assume wf: "wf_frame df"
    from df_to_dict_spec [OF wf, of False] obtain d where
      d: "df_to_dict df False = Inr d" "lookup_spec df False d" by blast
    from d(2) multi have "\<forall>path c. row_is_zero df path \<or> col_is_zero df path c \<longrightarrow> nd_lookup d path c = None"
      by (simp add: lookup_spec_def)
    with d(1) show "\<exists>d. df_to_dict df False = Inr d \<and>
           (\<forall>path c. row_is_zero df path \<or> col_is_zero df path c \<longrightarrow> nd_lookup d path c = None)"
      by blast
  qed
qed

theorem df_to_dict_ignores_flag_witness:
  "is_multiindex ex_multi \<and> wf_frame ex_multi \<and>
   df_to_dict ex_multi False = df_to_dict ex_multi True \<and>
   (\<exists>d. df_to_dict ex_multi False = Inr d \<and>
      (\<forall>path c. row_is_zero ex_multi path \<or> col_is_zero ex_multi path c \<longrightarrow> nd_lookup d path c = None))"
  using multi_ex_multi wf_ex_multi df_to_dict_ignores_flag [OF multi_ex_multi, of False]
  by blast

text \<open>
  C5: for every well-formed table with \<open>n > 0\<close> index levels \<^verbatim>\<open>df_to_dict\<close> returns a
  nested dictionary with \<open>n - 1\<close> outer levels, the outermost keyed by the labels of the
  outermost index level; every value it holds is reached by a path of \<open>n\<close> labels (a row
  key of the table, its last label in the leaf) and a column label, and is the cell of the
  table at that row and column.
\<close>

theorem df_to_dict_nested:
  assumes wf: "wf_frame df"
  shows "\<exists>d. df_to_dict df drop_full_zeros = Inr d \<and>
     nd_levels (nlevels df - 1) d \<and>
     lookup_spec df drop_full_zeros d \<and>
     (\<forall>path c v. nd_lookup d path c = Some v \<longrightarrow>
        length path = nlevels df \<and> c \<in> set (columns df) \<and> frame_lookup df path c = Some v) \<and>
     (is_multiindex df \<longrightarrow> (\<exists>kids. d = Node kids \<and> map fst kids = group_keys df))"
proof -
  from df_to_dict_spec [OF wf, of drop_full_zeros] obtain d where
    d: "df_to_dict df drop_full_zeros = Inr d" "nd_levels (nlevels df - 1) d"
       "lookup_spec df drop_full_zeros d" by blast
  have sound: "length path = nlevels df \<and> c \<in> set (columns df) \<and> frame_lookup df path c = Some v"
    if "nd_lookup d path c = Some v" for path c v
  proof -
    from that d(3) have "frame_lookup df path c = Some v"
      by (simp add: lookup_spec_def split: if_splits)
    with frame_lookup_SomeD [OF wf this] show ?thesis by simp
  qed
  have keys: "\<exists>kids. d = Node kids \<and> map fst kids = group_keys df" if multi: "is_multiindex df"
  proof -
    from d(1) multi obtain kids where
      c: "collect (map (\<lambda>name. (name, df_to_dict (droplevel0 (get_group df name)) True))
                    (group_keys df)) = Inr kids" and dk: "d = Node kids"
      by (subst (asm) df_to_dict.simps) (auto simp: map_sum_def split: sum.splits)
    have "map fst ys = map fst xs" if "collect xs = Inr ys" for xs :: "(label \<times> (error + ndict)) list" and ys
      using that by (induction xs arbitrary: ys rule: collect.induct) (auto split: sum.splits)
    from this [OF c] dk show ?thesis by (simp add: comp_def)
  qed
  from d sound keys show ?thesis by blast
qed

theorem df_to_dict_nested_witness:
  "wf_frame ex_multi \<and>
   (\<exists>d. df_to_dict ex_multi False = Inr d \<and>
     nd_levels (nlevels ex_multi - 1) d \<and>
     lookup_spec ex_multi False d \<and>
     (\<forall>path c v. nd_lookup d path c = Some v \<longrightarrow>
        length path = nlevels ex_multi \<and> c \<in> set (columns ex_multi) \<and>
        frame_lookup ex_multi path c = Some v) \<and>
     (is_multiindex ex_multi \<longrightarrow> (\<exists>kids. d = Node kids \<and> map fst kids = group_keys ex_multi)))"
  using wf_ex_multi df_to_dict_nested [OF wf_ex_multi, of False] by (rule conjI)

section \<open>Properties of the loader\<close>

lemma bind_err_Inr:
  "bind_err x f = Inr y \<Longrightarrow> \<exists>v. x = Inr v \<and> f v = Inr y"
  by (cases x) (simp_all add: bind_err_def)

lemma load_dfs_Inr:
  assumes "load_dfs csv js = Inr res"
  shows "\<exists>raw. load_tables csv js = Inr raw \<and>
     res = map (\<lambda>(name, df). (name, rename_index rename_dict df)) raw"
  using assms by (cases "load_tables csv js") (simp_all add: load_dfs_def)

lemma load_tables_names:
  assumes "load_tables csv js = Inr raw"
  shows "map fst raw = table_names"
proof -
  from assms obtain a b c d e f g h i where
    "raw = [(''emissions_year'', a), (''emissions_tech'', b), (''emissions_mat'', c),
      (''jobs_year'', d), (''jobs_year_full'', e), (''jobs_tech'', f), (''jobs_ind'', g)]"
    unfolding load_tables_def by (auto dest!: bind_err_Inr)
  then show ?thesis by (simp add: table_names_def)
qed

lemma list_all2_map_left:
  "(\<And>x. x \<in> set xs \<Longrightarrow> R (f x) x) \<Longrightarrow> list_all2 R (map f xs) xs"
  by (induction xs) auto

lemma same_cells_rename: "same_cells (name, rename_index d df) (name, df)"
  by (simp add: same_cells_def rename_index_def cell_values_def frame_shape_def comp_def split_beta)

lemma relabelled_rename: "relabelled (name, rename_index rename_dict df) (name, df)"
  by (simp add: relabelled_def rename_index_def comp_def split_beta)

lemma rename_label_not_code: "rename_label rename_dict l \<notin> set countries"
  by (cases l) (auto simp: rename_label_def rename_dict_def countries_def split: option.splits if_splits)

lemma jobs_filter_drop:
  assumes "j_indicator r = ''Capacity'' \<or> j_parameter r \<noteq> ''Power Generation Capacity (Aggregate)''"
  shows "jobs_filter (xs @ r # ys) = jobs_filter (xs @ ys)"
  using assms by (auto simp: jobs_filter_def)

lemma jobs_series_drop:
  assumes "j_indicator r = ''Capacity'' \<or> j_parameter r \<noteq> ''Power Generation Capacity (Aggregate)''"
  shows "jobs_series (xs @ r # ys) = jobs_series (xs @ ys)"
  unfolding jobs_series_def jobs_filter_drop [OF assms] ..

lemma ex_loads: "\<exists>res. load_dfs ex_csv ex_jobs = Inr res"
proof -
  have "case load_dfs ex_csv ex_jobs of Inl e \<Rightarrow> False | Inr r \<Rightarrow> True" by code_simp
  then show ?thesis by (cases "load_dfs ex_csv ex_jobs") auto
qed

lemma ex_uk_keys:
  "map_sum id index_keys (load_dfs ex_csv_uk ex_jobs) = Inr
     [(''emissions_year'',
        [[LStr ''Kenya'', LStr ''Base'', LStr ''United Kingdom''],
         [LStr ''Rwanda'', LStr ''Base'', LStr ''United Kingdom''],
         [LStr ''Uganda'', LStr ''Base'', LStr ''United Kingdom''],
         [LStr ''United Kingdom'', LStr ''Base'', LStr ''United Kingdom''],
         [LStr ''Zambia'', LStr ''Base'', LStr ''United Kingdom'']]),
      (''emissions_tech'',
        [[LStr ''Kenya'', LStr ''Base'', LStr ''United Kingdom''],
         [LStr ''Rwanda'', LStr ''Base'', LStr ''United Kingdom''],
         [LStr ''Uganda'', LStr ''Base'', LStr ''United Kingdom''],
         [LStr ''United Kingdom'', LStr ''Base'', LStr ''United Kingdom''],
         [LStr ''Zambia'', LStr ''Base'', LStr ''United Kingdom'']]),
      (''emissions_mat'',
        [[LStr ''Kenya'', LStr ''Base''], [LStr ''Rwanda'', LStr ''Base''],
         [LStr ''Uganda'', LStr ''Base''], [LStr ''United Kingdom'', LStr ''Base''],
         [LStr ''Zambia'', LStr ''Base'']]),
      (''jobs_year'',
        [[LStr ''Kenya'', LStr ''Base'', LStr ''Solar''], [LStr ''Rwanda'', LStr ''Base'', LStr ''Solar''],
         [LStr ''Uganda'', LStr ''Base'', LStr ''Solar''], [LStr ''Zambia'', LStr ''Base'', LStr ''Wind'']]),
      (''jobs_year_full'',
        [[LStr ''Kenya'', LStr ''Base'', LStr ''Solar'', LStr ''Direct''],
         [LStr ''Rwanda'', LStr ''Base'', LStr ''Solar'', LStr ''Direct''],
         [LStr ''Uganda'', LStr ''Base'', LStr ''Solar'', LStr ''Direct''],
         [LStr ''Zambia'', LStr ''Base'', LStr ''Wind'', LStr ''Indirect'']]),
      (''jobs_tech'',
        [[LStr ''Kenya'', LStr ''Base'', LStr ''Direct''], [LStr ''Rwanda'', LStr ''Base'', LStr ''Direct''],
         [LStr ''Uganda'', LStr ''Base'', LStr ''Direct''], [LStr ''Zambia'', LStr ''Base'', LStr ''Indirect'']]),
      (''jobs_ind'',
        [[LStr ''Kenya'', LStr ''Base''], [LStr ''Rwanda'', LStr ''Base''],
         [LStr ''Uganda'', LStr ''Base''], [LStr ''Zambia'', LStr ''Base'']])]"
  by code_simp

text \<open>
  C7: the renaming loop is a pure relabeling: each of the seven tables returned by
  \<^verbatim>\<open>load_dfs\<close> has, compared with the table built before the loop, the same cells
  (as a multiset, and even row by row), the same columns and the same number of rows
  and columns.
\<close>

theorem rename_preserves_cells:
  assumes "load_dfs csv js = Inr res"
  shows "\<exists>raw. load_tables csv js = Inr raw \<and> map fst res = table_names \<and>
     list_all2 same_cells res raw"
proof -
  from load_dfs_Inr [OF assms] obtain raw where
    raw: "load_tables csv js = Inr raw"
    and res: "res = map (\<lambda>(name, df). (name, rename_index rename_dict df)) raw" by blast
  have "map fst res = map fst raw" by (simp add: res comp_def split_beta)
  then have "map fst res = table_names" by (simp add: load_tables_names [OF raw])
  moreover have "list_all2 same_cells res raw"
    unfolding res by (rule list_all2_map_left) (auto simp: same_cells_rename)
  ultimately show ?thesis using raw by blast
qed

theorem rename_preserves_cells_witness:
  "\<exists>res. load_dfs ex_csv ex_jobs = Inr res \<and>
     (\<exists>raw. load_tables ex_csv ex_jobs = Inr raw \<and> map fst res = table_names \<and>
        list_all2 same_cells res raw)"
  using ex_loads rename_preserves_cells [of ex_csv ex_jobs] by blast

text \<open>
  C10: the renaming rewrites the labels of every row-index level, not only those of the
  Country level: the row keys of each returned table are the keys built before the loop
  with every label renamed, so no label equal to one of the five codes is left at any
  level, and each code is rewritten to its country name.
\<close>

theorem rename_every_level:
  assumes "load_dfs csv js = Inr res"
  shows "(\<exists>raw. load_tables csv js = Inr raw \<and> list_all2 relabelled res raw) \<and>
     (\<forall>(name, df) \<in> set res. \<forall>(k, cs) \<in> set (rows df). \<forall>l \<in> set k. l \<notin> set countries) \<and>
     map (rename_label rename_dict) countries =
       [LStr ''Kenya'', LStr ''Rwanda'', LStr ''Uganda'', LStr ''United Kingdom'', LStr ''Zambia'']"
proof -
  from load_dfs_Inr [OF assms] obtain raw where
    raw: "load_tables csv js = Inr raw"
    and res: "res = map (\<lambda>(name, df). (name, rename_index rename_dict df)) raw" by blast
  have "list_all2 relabelled res raw"
    unfolding res by (rule list_all2_map_left) (auto simp: relabelled_rename)
  moreover have "\<forall>(name, df) \<in> set res. \<forall>(k, cs) \<in> set (rows df). \<forall>l \<in> set k. l \<notin> set countries"
    unfolding res using rename_label_not_code by (auto simp: rename_index_def)
  moreover have "map (rename_label rename_dict) countries =
       [LStr ''Kenya'', LStr ''Rwanda'', LStr ''Uganda'', LStr ''United Kingdom'', LStr ''Zambia'']"
    by (simp add: rename_label_def rename_dict_def countries_def)
  ultimately show ?thesis using raw by blast
qed

theorem rename_every_level_witness:
  "\<exists>res. load_dfs ex_csv_uk ex_jobs = Inr res \<and>
     map_of (index_keys res) ''emissions_mat'' =
       Some [[LStr ''Kenya'', LStr ''Base''], [LStr ''Rwanda'', LStr ''Base''],
             [LStr ''Uganda'', LStr ''Base''], [LStr ''United Kingdom'', LStr ''Base''],
             [LStr ''Zambia'', LStr ''Base'']] \<and>
     map_of (index_keys res) ''emissions_year'' =
       Some [[LStr ''Kenya'', LStr ''Base'', LStr ''United Kingdom''],
             [LStr ''Rwanda'', LStr ''Base'', LStr ''United Kingdom''],
             [LStr ''Uganda'', LStr ''Base'', LStr ''United Kingdom''],
             [LStr ''United Kingdom'', LStr ''Base'', LStr ''United Kingdom''],
             [LStr ''Zambia'', LStr ''Base'', LStr ''United Kingdom'']] \<and>
     (\<exists>raw. load_tables ex_csv_uk ex_jobs = Inr raw \<and> list_all2 relabelled res raw) \<and>
     (\<forall>(name, df) \<in> set res. \<forall>(k, cs) \<in> set (rows df). \<forall>l \<in> set k. l \<notin> set countries)"
proof -
  from ex_uk_keys obtain res where
    res: "load_dfs ex_csv_uk ex_jobs = Inr res" and
    keys: "index_keys res = 
     [(''emissions_year'',
        [[LStr ''Kenya'', LStr ''Base'', LStr ''United Kingdom''],
         [LStr ''Rwanda'', LStr ''Base'', LStr ''United Kingdom''],
         [LStr ''Uganda'', LStr ''Base'', LStr ''United Kingdom''],
         [LStr ''United Kingdom'', LStr ''Base'', LStr ''United Kingdom''],
         [LStr ''Zambia'', LStr ''Base'', LStr ''United Kingdom'']]),
      (''emissions_tech'',
        [[LStr ''Kenya'', LStr ''Base'', LStr ''United Kingdom''],
         [LStr ''Rwanda'', LStr ''Base'', LStr ''United Kingdom''],
         [LStr ''Uganda'', LStr ''Base'', LStr ''United Kingdom''],
         [LStr ''United Kingdom'', LStr ''Base'', LStr ''United Kingdom''],
         [LStr ''Zambia'', LStr ''Base'', LStr ''United Kingdom'']]),
      (''emissions_mat'',
        [[LStr ''Kenya'', LStr ''Base''], [LStr ''Rwanda'', LStr ''Base''],
         [LStr ''Uganda'', LStr ''Base''], [LStr ''United Kingdom'', LStr ''Base''],
         [LStr ''Zambia'', LStr ''Base'']]),
      (''jobs_year'',
        [[LStr ''Kenya'', LStr ''Base'', LStr ''Solar''], [LStr ''Rwanda'', LStr ''Base'', LStr ''Solar''],
         [LStr ''Uganda'', LStr ''Base'', LStr ''Solar''], [LStr ''Zambia'', LStr ''Base'', LStr ''Wind'']]),
      (''jobs_year_full'',
        [[LStr ''Kenya'', LStr ''Base'', LStr ''Solar'', LStr ''Direct''],
         [LStr ''Rwanda'', LStr ''Base'', LStr ''Solar'', LStr ''Direct''],
         [LStr ''Uganda'', LStr ''Base'', LStr ''Solar'', LStr ''Direct''],
         [LStr ''Zambia'', LStr ''Base'', LStr ''Wind'', LStr ''Indirect'']]),
      (''jobs_tech'',
        [[LStr ''Kenya'', LStr ''Base'', LStr ''Direct''], [LStr ''Rwanda'', LStr ''Base'', LStr ''Direct''],
         [LStr ''Uganda'', LStr ''Base'', LStr ''Direct''], [LStr ''Zambia'', LStr ''Base'', LStr ''Indirect'']]),
      (''jobs_ind'',
        [[LStr ''Kenya'', LStr ''Base''], [LStr ''Rwanda'', LStr ''Base''],
         [LStr ''Uganda'', LStr ''Base''], [LStr ''Zambia'', LStr ''Base'']])]"
    by (cases "load_dfs ex_csv_uk ex_jobs") auto
  from keys have
    "map_of (index_keys res) ''emissions_mat'' =
       Some [[LStr ''Kenya'', LStr ''Base''], [LStr ''Rwanda'', LStr ''Base''],
             [LStr ''Uganda'', LStr ''Base''], [LStr ''United Kingdom'', LStr ''Base''],
             [LStr ''Zambia'', LStr ''Base'']]"
    "map_of (index_keys res) ''emissions_year'' =
       Some [[LStr ''Kenya'', LStr ''Base'', LStr ''United Kingdom''],
             [LStr ''Rwanda'', LStr ''Base'', LStr ''United Kingdom''],
             [LStr ''Uganda'', LStr ''Base'', LStr ''United Kingdom''],
             [LStr ''United Kingdom'', LStr ''Base'', LStr ''United Kingdom''],
             [LStr ''Zambia'', LStr ''Base'', LStr ''United Kingdom'']]"
    by simp_all
  with res rename_every_level [OF res] show ?thesis by blast
qed

text \<open>
  C4: a jobs record whose \<^verbatim>\<open>Indicator\<close> is \<^verbatim>\<open>Capacity\<close>, or whose \<^verbatim>\<open>parameter\<close> is not
  \<^verbatim>\<open>Power Generation Capacity (Aggregate)\<close>, is excluded whatever its other fields are:
  the result of \<^verbatim>\<open>load_dfs\<close>, and with it every jobs table and every template variable,
  is the same with and without the record.
\<close>

theorem jobs_rows_excluded:
  assumes "j_indicator r = ''Capacity'' \<or> j_parameter r \<noteq> ''Power Generation Capacity (Aggregate)''"
  shows "load_dfs csv (xs @ r # ys) = load_dfs csv (xs @ ys) \<and>
     template_vars csv (xs @ r # ys) preserve_zeros = template_vars csv (xs @ ys) preserve_zeros"
  unfolding template_vars_def load_dfs_def load_tables_def jobs_series_drop [OF assms] by simp

theorem jobs_rows_excluded_witness:
  "j_indicator capacity_row = ''Capacity'' \<and>
   load_dfs ex_csv ([] @ capacity_row # ex_jobs) = load_dfs ex_csv ([] @ ex_jobs) \<and>
   template_vars ex_csv ([] @ capacity_row # ex_jobs) False = template_vars ex_csv ([] @ ex_jobs) False"
proof -
  have c: "j_indicator capacity_row = ''Capacity''"
    by (simp add: capacity_row_def mk_jrow_def)
  then have "j_indicator capacity_row = ''Capacity'' \<or>
      j_parameter capacity_row \<noteq> ''Power Generation Capacity (Aggregate)''" ..
  from jobs_rows_excluded [OF this, of ex_csv "[]" ex_jobs False] c show ?thesis by blast
qed

text \<open>
  C2: on the example emissions file (Country KE, Scenario Base, material Steel: 5 in 2020
  and 0 in 2021) the variable \<^verbatim>\<open>emissions_year\<close> maps Kenya, Base, Steel to
  \<open>{2020: 5}\<close> with zero dropping on, and to the same \<open>{2020: 5}\<close> with
  \<^verbatim>\<open>preserve_zeros\<close> set: the 2021 column is dropped in both runs.
\<close>

theorem emissions_year_preserve_zeros_example:
  "template_var ''emissions_year'' ex_csv ex_jobs True =
     Inr (Some (Node
       [(LStr ''Kenya'', Node [(LStr ''Base'', Leaf [(LStr ''Steel'', [(LInt 2020, 5)])])]),
        (LStr ''Rwanda'', Node [(LStr ''Base'', Leaf [(LStr ''Steel'', [(LInt 2020, 1)])])]),
        (LStr ''Uganda'', Node [(LStr ''Base'', Leaf [(LStr ''Steel'', [(LInt 2020, 2)])])]),
        (LStr ''United Kingdom'', Node [(LStr ''Base'', Leaf [(LStr ''Steel'', [(LInt 2020, 3)])])]),
        (LStr ''Zambia'', Node [(LStr ''Base'', Leaf [(LStr ''Steel'', [(LInt 2021, 4)])])])])) \<and>
   template_var ''emissions_year'' ex_csv ex_jobs False =
     template_var ''emissions_year'' ex_csv ex_jobs True"
  by code_simp

end
